theory Spec2Isabelle
  imports Main "HOL-Library.AList" "HOL-Library.Word"
begin

section \<open>The content cache\<close>

text \<open>
  \<^verbatim>\<open>server.c\<close> holds one \<^verbatim>\<open>struct cache *\<close>, made by \<^verbatim>\<open>cache_create(10, 0)\<close> in
  \<^verbatim>\<open>main\<close> and handed to every request. It reads the fields \<^verbatim>\<open>content_type\<close>,
  \<^verbatim>\<open>content\<close> and \<^verbatim>\<open>content_length\<close> of an entry and calls \<^verbatim>\<open>cache_get\<close> and
  \<^verbatim>\<open>cache_put\<close>; \<^verbatim>\<open>cache.c\<close> itself is not among the sources. Bytes are \<open>char\<close>s
  (8 bits each), so a byte buffer is a \<open>string\<close>.
\<close>

record cache_entry =
  path :: string
  content_type :: string
  content_length :: int
  content :: string

text \<open>
  Modelled from the spec: the cache of \<^verbatim>\<open>cache.c\<close>. \<open>capacity\<close> is the maximum number of
  entries, \<open>index\<close> maps a key to its entry (an association list whose keys are kept
  unique), \<open>recency\<close> lists the keys from most recently used to least recently used.
\<close>

record cache =
  capacity :: nat
  index :: "(string \<times> cache_entry) list"
  recency :: "string list"

text \<open>The number of keys of the index, \<open>|index|\<close> in the spec.\<close>

definition index_size :: "cache \<Rightarrow> nat" where
  "index_size c = length (remdups (map fst (index c)))"

text \<open>
  Modelled from the spec: \<^verbatim>\<open>cache_create(max_size, hashsize)\<close>. A capacity below 1 is
  rejected at construction (the policy the spec settles on); the hash-table size is a
  sizing hint with no effect on the contents.
\<close>

definition cache_create :: "int \<Rightarrow> int \<Rightarrow> cache option" where
  "cache_create max_size hashsize =
     (if max_size < 1 then None
      else Some \<lparr>capacity = nat max_size, index = [], recency = []\<rparr>)"

text \<open>
  Modelled from the spec: \<^verbatim>\<open>cache_get(cache, path)\<close>. A hit returns the entry and makes
  the key the most recently used; a miss changes nothing.
\<close>

definition cache_get :: "cache \<Rightarrow> string \<Rightarrow> cache_entry option \<times> cache" where
  "cache_get c key =
     (case map_of (index c) key of
        None \<Rightarrow> (None, c)
      | Some e \<Rightarrow> (Some e, c\<lparr>recency := key # remove1 key (recency c)\<rparr>))"

text \<open>
  Modelled from the spec: eviction of the least recently used entry, the last key of
  \<open>recency\<close>, from both \<open>index\<close> and \<open>recency\<close>. With nothing to evict the cache is
  left as it is.
\<close>

definition evict :: "cache \<Rightarrow> cache" where
  "evict c =
     (case recency c of
        [] \<Rightarrow> c
      | _ # _ \<Rightarrow> c\<lparr>index := AList.delete (last (recency c)) (index c),
                  recency := butlast (recency c)\<rparr>)"

text \<open>
  Modelled from the spec: \<^verbatim>\<open>cache_put(cache, path, content_type, content,
  content_length)\<close>. A key already present is overwritten in place and promoted. An absent
  key is inserted as the most recently used, after an eviction when the index holds
  exactly \<open>capacity\<close> keys.
\<close>

definition cache_put :: "cache \<Rightarrow> string \<Rightarrow> string \<Rightarrow> string \<Rightarrow> int \<Rightarrow> cache" where
  "cache_put c key ctype bytes len =
     (let e = \<lparr>path = key, content_type = ctype, content_length = len, content = bytes\<rparr>
      in case map_of (index c) key of
           Some _ \<Rightarrow> c\<lparr>index := AList.update key e (index c),
                      recency := key # remove1 key (recency c)\<rparr>
         | None \<Rightarrow>
             (let c' = (if index_size c = capacity c then evict c else c)
              in c'\<lparr>index := (key, e) # index c', recency := key # recency c'\<rparr>))"

text \<open>A sequence of \<^verbatim>\<open>cache_put\<close> calls, one per entry of the list, first to last.\<close>

definition put_entry :: "cache \<Rightarrow> cache_entry \<Rightarrow> cache" where
  "put_entry c e = cache_put c (path e) (content_type e) (content e) (content_length e)"

definition put_all :: "cache \<Rightarrow> cache_entry list \<Rightarrow> cache" where
  "put_all c es = foldl put_entry c es"

text \<open>
  The invariant of the cache: the keys of the index are unique and are exactly the keys
  of \<open>recency\<close>, each once (I2 of the spec), and there are at most \<open>capacity\<close> of them (I1),
  with a capacity of at least 1.
\<close>

definition cache_inv :: "cache \<Rightarrow> bool" where
  "cache_inv c \<longleftrightarrow>
     distinct (map fst (index c)) \<and> distinct (recency c) \<and>
     set (map fst (index c)) = set (recency c) \<and>
     length (recency c) \<le> capacity c \<and> 1 \<le> capacity c"

section \<open>The server of \<^verbatim>\<open>server.c\<close>\<close>

subsection \<open>The environment\<close>

text \<open>
  What the server calls but does not define is a parameter: the file system behind
  \<^verbatim>\<open>file_load\<close>, the function \<^verbatim>\<open>mime_type_get\<close> of \<^verbatim>\<open>mime.c\<close>, and the C library.
  \<open>clock e n\<close> is what the \<open>n\<close>-th call of \<^verbatim>\<open>time(NULL)\<close> returns, \<open>asctime_local e t\<close> is
  \<^verbatim>\<open>asctime(localtime(&t))\<close>, \<open>rand_seq e s n\<close> is what the \<open>n\<close>-th call of \<^verbatim>\<open>rand()\<close>
  after \<^verbatim>\<open>srand(s)\<close> returns (never negative), and \<open>send_rv e fd bytes\<close> is the result of
  \<^verbatim>\<open>send\<close> for these bytes on this socket.
\<close>

record env =
  files :: "string \<Rightarrow> string option"
  mime_type_get :: "string \<Rightarrow> string"
  clock :: "nat \<Rightarrow> int"
  asctime_local :: "int \<Rightarrow> string"
  rand_seq :: "32 word \<Rightarrow> nat \<Rightarrow> nat"
  send_rv :: "int \<Rightarrow> string \<Rightarrow> int"

text \<open>The arguments of one \<^verbatim>\<open>send_response\<close> call, with the date it reads.\<close>

record response =
  header :: string
  date :: string
  resp_type :: string
  resp_length :: int
  body :: string

text \<open>
  What the server does that can be seen from outside, in the order it happens: cache
  lookups (with their result, hit or miss) and insertions, file loads (found or not),
  \<^verbatim>\<open>send\<close> calls with the response they carry and their result, lines on \<^verbatim>\<open>stderr\<close>
  (for \<^verbatim>\<open>perror\<close>, the prefix it is given), and \<^verbatim>\<open>close\<close>. \<open>Overrun fd r\<close> is a call of
  \<^verbatim>\<open>send_response\<close> whose response \<open>r\<close> does not fit the buffer it is built in. What
  \<^verbatim>\<open>main\<close> prints on \<^verbatim>\<open>stdout\<close> is left out.
\<close>

datatype event =
    Cache_get string bool
  | Cache_put string string string int
  | File_load string bool
  | Send int response int
  | Overrun int response
  | Stderr string
  | Close int

text \<open>
  The state the server carries: the cache, the state of the C library's generator (the
  last seed and the number of draws since), the number of \<^verbatim>\<open>time\<close> calls so far, and the
  events so far.
\<close>

record world =
  cache :: cache
  seed :: "32 word"
  drawn :: nat
  ticks :: nat
  trace :: "event list"

text \<open>
  A call returns in a new state, or ends the process with an exit code, or writes or
  reads outside a buffer, after which C leaves the behaviour undefined. Of a process that
  has ended, and of one that has left the defined behaviour, only the events up to that
  point are kept.
\<close>

datatype outcome = Return world | Exit int "event list" | Undefined "event list"

definition log :: "event \<Rightarrow> world \<Rightarrow> world" where
  "log ev w = w\<lparr>trace := trace w @ [ev]\<rparr>"

definition time_null :: "env \<Rightarrow> world \<Rightarrow> int \<times> world" where
  "time_null e w = (clock e (ticks w), w\<lparr>ticks := Suc (ticks w)\<rparr>)"

definition srand :: "32 word \<Rightarrow> world \<Rightarrow> world" where
  "srand s w = w\<lparr>seed := s, drawn := 0\<rparr>"

definition rand :: "env \<Rightarrow> world \<Rightarrow> nat \<times> world" where
  "rand e w = (rand_seq e (seed w) (drawn w), w\<lparr>drawn := Suc (drawn w)\<rparr>)"

subsection \<open>Formatting\<close>

definition nl :: string where
  "nl = [CHR 0x0A]"

fun digits :: "nat \<Rightarrow> string" where
  "digits n = (if n < 10 then [''0123456789'' ! n]
               else digits (n div 10) @ [''0123456789'' ! (n mod 10)])"

declare digits.simps [simp del]

text \<open>The conversion \<^verbatim>\<open>%d\<close> of \<^verbatim>\<open>sprintf\<close>.\<close>

definition sprintf_d :: "int \<Rightarrow> string" where
  "sprintf_d i = (if i < 0 then CHR ''-'' # digits (nat (- i)) else digits (nat i))"

subsection \<open>\<^verbatim>\<open>send_response\<close>\<close>

definition max_response_size :: nat where
  "max_response_size = 65536 * 10"

text \<open>The header block that \<^verbatim>\<open>sprintf\<close> writes into \<^verbatim>\<open>response\<close>.\<close>

definition response_head :: "response \<Rightarrow> string" where
  "response_head r =
     header r @ nl @
     ''Date: '' @ date r @ ''Connection: close'' @ nl @
     ''Content-Type: '' @ resp_type r @ nl @ ''Content-Length: '' @ sprintf_d (resp_length r) @ nl @
     nl"

text \<open>The bytes handed to \<^verbatim>\<open>send\<close>: the header block, then \<^verbatim>\<open>content_length\<close> bytes of the body.\<close>

definition wire :: "response \<Rightarrow> string" where
  "wire r = response_head r @ take (nat (resp_length r)) (body r)"

text \<open>
  \<^verbatim>\<open>response\<close> has \<^verbatim>\<open>max_response_size\<close> bytes. \<^verbatim>\<open>sprintf\<close> writes the header block and
  a terminating zero into it, and \<^verbatim>\<open>memcpy\<close> then copies \<^verbatim>\<open>content_length\<close> bytes of
  \<^verbatim>\<open>body\<close> behind the header block; neither is checked against the size of the buffer.
\<close>

definition in_bounds :: "response \<Rightarrow> bool" where
  "in_bounds r \<longleftrightarrow>
     length (response_head r) < max_response_size \<and>
     0 \<le> resp_length r \<and>
     nat (resp_length r) \<le> length (body r) \<and>
     length (response_head r) + nat (resp_length r) \<le> max_response_size"

definition send_response ::
  "env \<Rightarrow> int \<Rightarrow> string \<Rightarrow> string \<Rightarrow> string \<Rightarrow> int \<Rightarrow> world \<Rightarrow> event list + int \<times> world" where
  "send_response e fd hdr ctype bytes len w =
     (let (cur_time, w1) = time_null e w;
          r = \<lparr>header = hdr, date = asctime_local e cur_time, resp_type = ctype,
               resp_length = len, body = bytes\<rparr>
      in if in_bounds r then
           (let rv = send_rv e fd (wire r);
                w2 = log (Send fd r rv) w1
            in Inr (rv, if rv < 0 then log (Stderr ''send'') w2 else w2))
         else Inl (trace w1 @ [Overrun fd r]))"

text \<open>
  No caller looks at the value of \<^verbatim>\<open>send_response\<close>: each returns right after the call
  (\<^verbatim>\<open>file_free\<close> has no effect that is modelled).
\<close>

definition returning :: "event list + int \<times> world \<Rightarrow> outcome" where
  "returning x = (case x of Inl evs \<Rightarrow> Undefined evs | Inr (rv, w') \<Rightarrow> Return w')"

subsection \<open>\<^verbatim>\<open>get_d20\<close>\<close>

definition get_d20 :: "env \<Rightarrow> int \<Rightarrow> world \<Rightarrow> outcome" where
  "get_d20 e fd w =
     (let (t, w1) = time_null e w;
          w2 = srand (word_of_int t) w1;
          (r, w3) = rand e w2;
          d20 = int r mod 20 + 1;
          bytes = sprintf_d d20
      in returning
           (send_response e fd ''HTTP/1.1 200 OK'' ''text/plain'' bytes (int (length bytes)) w3))"

subsection \<open>Files\<close>

text \<open>
  \<^verbatim>\<open>struct file_data\<close>, of which \<^verbatim>\<open>server.c\<close> reads the fields \<^verbatim>\<open>size\<close> and \<^verbatim>\<open>data\<close>;
  \<open>data_size\<close> is the field \<^verbatim>\<open>size\<close>, whose name HOL has taken.
\<close>

record file_data =
  data_size :: int
  data :: string

text \<open>
  Modelled from the spec: \<^verbatim>\<open>file_load\<close> of \<^verbatim>\<open>file.c\<close>. It returns the whole contents of
  the file at the path, with their length, or nothing when the file cannot be read. The
  files are those of the environment: they do not change while a request is handled.
\<close>

definition file_load :: "env \<Rightarrow> string \<Rightarrow> world \<Rightarrow> file_data option \<times> world" where
  "file_load e filepath w =
     (case files e filepath of
        None \<Rightarrow> (None, log (File_load filepath False) w)
      | Some bytes \<Rightarrow>
          (Some \<lparr>data_size = int (length bytes), data = bytes\<rparr>,
           log (File_load filepath True) w))"

text \<open>
  The two macros of \<^verbatim>\<open>server.c\<close>. \<^verbatim>\<open>get_file\<close> does not use \<^verbatim>\<open>SERVER_ROOT\<close>: it writes the
  directory into its format strings.
\<close>

definition SERVER_FILES :: string where
  "SERVER_FILES = ''./serverfiles''"

definition SERVER_ROOT :: string where
  "SERVER_ROOT = ''./serverroot''"

subsection \<open>\<^verbatim>\<open>resp_404\<close>\<close>

definition resp_404 :: "env \<Rightarrow> int \<Rightarrow> world \<Rightarrow> outcome" where
  "resp_404 e fd w =
     (let filepath = SERVER_FILES @ ''/404.html'';
          (filedata, w1) = file_load e filepath w
      in case filedata of
           None \<Rightarrow> Exit 3 (trace w1 @ [Stderr (''cannot find system 404 file'' @ nl)])
         | Some f \<Rightarrow>
             (let mime_type = mime_type_get e filepath
              in returning
                   (send_response e fd ''HTTP/1.1 404 NOT FOUND'' mime_type (data f)
                      (data_size f) w1)))"

subsection \<open>\<^verbatim>\<open>get_file\<close>\<close>

definition get_file :: "env \<Rightarrow> int \<Rightarrow> string \<Rightarrow> world \<Rightarrow> outcome" where
  "get_file e fd request_path w =
     (let filepath = ''./serverroot'' @ request_path;
          (entry, c1) = cache_get (cache w) filepath;
          w1 = log (Cache_get filepath (entry \<noteq> None)) (w\<lparr>cache := c1\<rparr>)
      in case entry of
           Some ce \<Rightarrow>
             returning
               (send_response e fd ''HTTP/1.1 200 OK'' (content_type ce) (content ce)
                  (content_length ce) w1)
         | None \<Rightarrow>
             (let (filedata, w2) = file_load e filepath w1;
                  filepath' = (if filedata = None
                               then ''./serverroot/'' @ request_path @ ''/index.html''
                               else filepath);
                  (filedata', w3) = (if filedata = None then file_load e filepath' w2
                                     else (filedata, w2))
              in case filedata' of
                   None \<Rightarrow> resp_404 e fd w3
                 | Some f \<Rightarrow>
                     (let mime_type = mime_type_get e filepath';
                          c2 = cache_put (cache w3) filepath' mime_type (data f) (data_size f);
                          w4 = log (Cache_put filepath' mime_type (data f) (data_size f))
                                 (w3\<lparr>cache := c2\<rparr>)
                      in returning
                           (send_response e fd ''HTTP/1.1 200 OK'' mime_type (data f)
                              (data_size f) w4))))"

subsection \<open>\<^verbatim>\<open>handle_http_request\<close>\<close>

text \<open>
  What \<^verbatim>\<open>recv\<close> gives: an error (a negative result), or the text that \<^verbatim>\<open>sscanf\<close> then
  reads from \<^verbatim>\<open>request\<close>. The source puts no zero byte behind the received bytes; the
  text is taken as \<^verbatim>\<open>sscanf\<close> sees it.
\<close>

datatype recv_result = Recv_failed | Received string

definition isspace :: "char \<Rightarrow> bool" where
  "isspace c \<longleftrightarrow> c \<in> set [CHR '' '', CHR 0x09, CHR 0x0A, CHR 0x0B, CHR 0x0C, CHR 0x0D]"

text \<open>
  One \<^verbatim>\<open>%s\<close> of \<^verbatim>\<open>sscanf\<close>: white space is skipped, then the characters up to the next
  white space are stored. At the end of the input nothing is stored.
\<close>

definition scan_s :: "string \<Rightarrow> (string \<times> string) option" where
  "scan_s s =
     (let r = dropWhile isspace s
      in if r = [] then None
         else Some (takeWhile (\<lambda>c. \<not> isspace c) r, dropWhile (\<lambda>c. \<not> isspace c) r))"

text \<open>
  \<^verbatim>\<open>sscanf(request, "%s %s %s", req_method, req_uri, req_protocol)\<close>: for each of the three
  buffers, the string stored in it, or \<open>None\<close> when the input ended before and the buffer
  is left as it was, never written.
\<close>

definition sscanf3 :: "string \<Rightarrow> string option \<times> string option \<times> string option" where
  "sscanf3 request =
     (case scan_s request of
        None \<Rightarrow> (None, None, None)
      | Some (m, r1) \<Rightarrow>
          (case scan_s r1 of
             None \<Rightarrow> (Some m, None, None)
           | Some (u, r2) \<Rightarrow>
               (case scan_s r2 of
                  None \<Rightarrow> (Some m, Some u, None)
                | Some (p, r3) \<Rightarrow> (Some m, Some u, Some p))))"

text \<open>A string fits a \<^verbatim>\<open>char\<close> array of \<open>n\<close> bytes when it leaves room for the final zero.\<close>

definition fits :: "nat \<Rightarrow> string option \<Rightarrow> bool" where
  "fits n buf = (case buf of None \<Rightarrow> True | Some s \<Rightarrow> length s < n)"

text \<open>
  The source checks neither the result of \<^verbatim>\<open>sscanf\<close> nor the length of what it stores in
  \<^verbatim>\<open>req_method[16]\<close>, \<^verbatim>\<open>req_uri[1024]\<close> and \<^verbatim>\<open>req_protocol[16]\<close>: a token longer than
  its buffer is written past it, and \<^verbatim>\<open>strcmp\<close> on a buffer that was never written reads
  indeterminate bytes. Both leave the defined behaviour. A method other than \<^verbatim>\<open>GET\<close> is
  not answered.
\<close>

definition handle_http_request :: "env \<Rightarrow> int \<Rightarrow> recv_result \<Rightarrow> world \<Rightarrow> outcome" where
  "handle_http_request e fd rcv w =
     (case rcv of
        Recv_failed \<Rightarrow> Return (log (Stderr ''recv'') w)
      | Received request \<Rightarrow>
          (case sscanf3 request of (req_method, req_uri, req_protocol) \<Rightarrow>
             if \<not> (fits 16 req_method \<and> fits 1024 req_uri \<and> fits 16 req_protocol)
             then Undefined (trace w)
             else
               (case req_method of
                  None \<Rightarrow> Undefined (trace w)
                | Some m \<Rightarrow>
                    if m = ''GET'' then
                      (case req_uri of
                         None \<Rightarrow> Undefined (trace w)
                       | Some uri \<Rightarrow>
                           if uri = ''/d20'' then get_d20 e fd w
                           else get_file e fd uri w)
                    else Return w)))"

subsection \<open>\<^verbatim>\<open>main\<close>\<close>

text \<open>
  One round of the loop of \<^verbatim>\<open>main\<close>, for one result of \<^verbatim>\<open>accept\<close> and what \<^verbatim>\<open>recv\<close>
  gives on the new socket.
\<close>

definition serve_one :: "env \<Rightarrow> int \<times> recv_result \<Rightarrow> world \<Rightarrow> outcome" where
  "serve_one e conn w =
     (case conn of (newfd, rcv) \<Rightarrow>
        if newfd = - 1 then Return (log (Stderr ''accept'') w)
        else
          (case handle_http_request e newfd rcv w of
             Return w' \<Rightarrow> Return (log (Close newfd) w')
           | Exit code evs \<Rightarrow> Exit code evs
           | Undefined evs \<Rightarrow> Undefined evs))"

text \<open>
  The loop never ends by itself; \<open>serve\<close> runs its first rounds, one for each connection
  of the list, and stops early when the process ends.
\<close>

fun serve :: "env \<Rightarrow> (int \<times> recv_result) list \<Rightarrow> world \<Rightarrow> outcome" where
  "serve e [] w = Return w"
| "serve e (conn # conns) w =
     (case serve_one e conn w of
        Return w' \<Rightarrow> serve e conns w'
      | Exit code evs \<Rightarrow> Exit code evs
      | Undefined evs \<Rightarrow> Undefined evs)"

text \<open>
  \<^verbatim>\<open>main\<close> up to the end of the given connections, for the descriptor that
  \<^verbatim>\<open>get_listener_socket\<close> returned. Before the first \<^verbatim>\<open>srand\<close> the generator is seeded
  with 1. \<^verbatim>\<open>cache_create(10, 0)\<close> gives a cache, so the first branch is never taken.
\<close>

definition main :: "env \<Rightarrow> int \<Rightarrow> (int \<times> recv_result) list \<Rightarrow> outcome" where
  "main e listenfd conns =
     (case cache_create 10 0 of
        None \<Rightarrow> Undefined []
      | Some c \<Rightarrow>
          (let w = \<lparr>cache = c, seed = 1, drawn = 0, ticks = 0, trace = []\<rparr>
           in if listenfd < 0
              then Exit 1 [Stderr (''webserver: fatal error getting listening socket'' @ nl)]
              else serve e conns w))"

subsection \<open>Reading the events\<close>

text \<open>
  The responses \<^verbatim>\<open>send_response\<close> was called with, each with its socket, in order: those
  that were sent and those that did not fit the buffer.
\<close>

fun responses :: "event list \<Rightarrow> (int \<times> response) list" where
  "responses [] = []"
| "responses (Send fd r rv # evs) = (fd, r) # responses evs"
| "responses (Overrun fd r # evs) = (fd, r) # responses evs"
| "responses (ev # evs) = responses evs"

text \<open>The responses handed to \<^verbatim>\<open>send\<close>, each with its socket, in order.\<close>

fun sends :: "event list \<Rightarrow> (int \<times> response) list" where
  "sends [] = []"
| "sends (Send fd r rv # evs) = (fd, r) # sends evs"
| "sends (ev # evs) = sends evs"

text \<open>The calls of \<^verbatim>\<open>cache_get\<close> and \<^verbatim>\<open>cache_put\<close>, in order.\<close>

fun cache_calls :: "event list \<Rightarrow> event list" where
  "cache_calls [] = []"
| "cache_calls (Cache_get k hit # evs) = Cache_get k hit # cache_calls evs"
| "cache_calls (Cache_put k t b n # evs) = Cache_put k t b n # cache_calls evs"
| "cache_calls (ev # evs) = cache_calls evs"

text \<open>The paths given to \<^verbatim>\<open>file_load\<close>, each with whether the file was found, in order.\<close>

fun file_loads :: "event list \<Rightarrow> (string \<times> bool) list" where
  "file_loads [] = []"
| "file_loads (File_load p found # evs) = (p, found) # file_loads evs"
| "file_loads (ev # evs) = file_loads evs"

text \<open>The events of a run, up to where it returned, ended or left the defined behaviour.\<close>

fun events_of :: "outcome \<Rightarrow> event list" where
  "events_of (Return w) = trace w"
| "events_of (Exit code evs) = evs"
| "events_of (Undefined evs) = evs"

text \<open>Every response among the events has one of the two status lines of \<^verbatim>\<open>server.c\<close>.\<close>

definition status_ok :: "event list \<Rightarrow> bool" where
  "status_ok evs \<longleftrightarrow>
     (\<forall>(fd, r) \<in> set (responses evs).
        header r = ''HTTP/1.1 200 OK'' \<or> header r = ''HTTP/1.1 404 NOT FOUND'')"

text \<open>
  The C library's \<^verbatim>\<open>asctime\<close> writes into a buffer of 26 bytes: its string has at most
  25 characters.
\<close>

definition asctime_ok :: "env \<Rightarrow> bool" where
  "asctime_ok e \<longleftrightarrow> (\<forall>t. length (asctime_local e t) \<le> 25)"

subsection \<open>The static documents, in the words of the spec\<close>

text \<open>
  The file a request path resolves to, with its bytes: the file of that path under the
  server root or, when that cannot be loaded, \<^verbatim>\<open>index.html\<close> under the path. The paths
  are the strings \<^verbatim>\<open>get_file\<close> builds.
\<close>

definition resolved_file :: "env \<Rightarrow> string \<Rightarrow> (string \<times> string) option" where
  "resolved_file e uri =
     (case files e (''./serverroot'' @ uri) of
        Some bytes \<Rightarrow> Some (''./serverroot'' @ uri, bytes)
      | None \<Rightarrow>
          (case files e (''./serverroot/'' @ uri @ ''/index.html'') of
             Some bytes \<Rightarrow> Some (''./serverroot/'' @ uri @ ''/index.html'', bytes)
           | None \<Rightarrow> None))"

text \<open>
  The document a static request is to be answered with: status line, file path and bytes.
  It is the resolved file with \<^verbatim>\<open>200 OK\<close> or, when there is none, the fixed 404 document
  with \<^verbatim>\<open>404 NOT FOUND\<close>; nothing when that cannot be loaded either.
\<close>

definition document_for :: "env \<Rightarrow> string \<Rightarrow> (string \<times> string \<times> string) option" where
  "document_for e uri =
     (case resolved_file e uri of
        Some (filepath, bytes) \<Rightarrow> Some (''HTTP/1.1 200 OK'', filepath, bytes)
      | None \<Rightarrow>
          (case files e ''./serverfiles/404.html'' of
             Some bytes \<Rightarrow> Some (''HTTP/1.1 404 NOT FOUND'', ''./serverfiles/404.html'', bytes)
           | None \<Rightarrow> None))"

text \<open>
  The response \<^verbatim>\<open>send_response\<close> builds for a file, when \<^verbatim>\<open>time\<close> is next read in
  state \<open>w\<close>.
\<close>

definition file_response :: "env \<Rightarrow> world \<Rightarrow> string \<Rightarrow> string \<Rightarrow> string \<Rightarrow> response" where
  "file_response e w status filepath bytes =
     \<lparr>header = status, date = asctime_local e (clock e (ticks w)),
      resp_type = mime_type_get e filepath, resp_length = int (length bytes), body = bytes\<rparr>"

text \<open>
  The cache agrees with the files: under each key it holds the bytes \<^verbatim>\<open>file_load\<close> gives
  for that path now, with their length and the content type of the path.
\<close>

definition coherent :: "env \<Rightarrow> cache \<Rightarrow> bool" where
  "coherent e c \<longleftrightarrow>
     (\<forall>(k, ce) \<in> set (index c).
        files e k = Some (content ce) \<and> content_type ce = mime_type_get e k \<and>
        content_length ce = int (length (content ce)))"

text \<open>
  A file system reads a run of slashes in a path as one slash; \<open>squeeze\<close> gives the path
  with every run reduced to one.
\<close>

fun squeeze :: "string \<Rightarrow> string" where
  "squeeze (a # b # s) =
     (if a = CHR ''/'' \<and> b = CHR ''/'' then squeeze (b # s) else a # squeeze (b # s))"
| "squeeze s = s"

subsection \<open>An example environment\<close>

text \<open>
  A small file system, one content type for every path, a clock that advances by one
  second every four readings, and a \<^verbatim>\<open>send\<close> that always takes the whole buffer. It makes
  the hypotheses of the theorems below concrete.
\<close>

definition example_env :: env where
  "example_env =
     \<lparr>files = map_of [(''./serverroot/index.html'', ''<h1>hi</h1>''),
                      (''./serverroot//docs/index.html'', ''docs''),
                      (''./serverfiles/404.html'', ''not found'')],
      mime_type_get = (\<lambda>p. ''text/html''),
      clock = (\<lambda>n. 1000 + int (n div 4)),
      asctime_local = (\<lambda>t. ''Thu Jan  1 00:16:40 1970'' @ nl),
      rand_seq = (\<lambda>s n. unat s + n),
      send_rv = (\<lambda>fd bytes. int (length bytes))\<rparr>"

text \<open>
  The same environment with a file of 655360 bytes, the size of the buffer of
  \<^verbatim>\<open>send_response\<close>, under the server root.
\<close>

definition large_file :: string where
  "large_file = replicate 655360 (CHR ''x'')"

definition large_env :: env where
  "large_env =
     example_env\<lparr>files := map_of [(''./serverroot/big.bin'', large_file),
                                    (''./serverfiles/404.html'', ''not found'')]\<rparr>"

text \<open>The state in which \<^verbatim>\<open>main\<close> enters its loop.\<close>

definition example_world :: world where
  "example_world =
     \<lparr>cache = \<lparr>capacity = 10, index = [], recency = []\<rparr>,
      seed = 1, drawn = 0, ticks = 0, trace = []\<rparr>"

section \<open>Proofs: the cache\<close>

subsection \<open>The invariant holds from creation on\<close>

lemma cache_create_inv: "cache_create n h = Some c \<Longrightarrow> cache_inv c"
  by (auto simp: cache_create_def cache_inv_def split: if_splits)

lemma index_size_inv: "cache_inv c \<Longrightarrow> index_size c = length (recency c)"
proof -
  assume inv: "cache_inv c"
  from inv have d1: "distinct (map fst (index c))" and d2: "distinct (recency c)"
    and eq: "set (map fst (index c)) = set (recency c)"
    unfolding cache_inv_def by blast+
  have "index_size c = length (map fst (index c))"
    using d1 by (simp only: index_size_def distinct_remdups_id)
  also have "\<dots> = card (set (map fst (index c)))"
    using d1 by (rule distinct_card [symmetric])
  also have "\<dots> = card (set (recency c))"
    by (simp only: eq)
  also have "\<dots> = length (recency c)"
    using d2 by (rule distinct_card)
  finally show ?thesis .
qed

lemma evict_inv:
  assumes "cache_inv c" and "recency c \<noteq> []"
  shows "distinct (map fst (index (evict c)))"
    and "distinct (recency (evict c))"
    and "set (map fst (index (evict c))) = set (butlast (recency c))"
    and "recency (evict c) = butlast (recency c)"
    and "capacity (evict c) = capacity c"
proof -
  obtain r rs where rs: "recency c = r # rs"
    using assms(2) by (cases "recency c") auto
  have ev: "evict c = c\<lparr>index := AList.delete (last (recency c)) (index c),
                        recency := butlast (recency c)\<rparr>"
    by (simp add: evict_def rs)
  show "distinct (map fst (index (evict c)))"
    using assms(1) by (simp add: ev cache_inv_def distinct_delete)
  show "distinct (recency (evict c))"
    using assms(1) by (simp add: ev cache_inv_def distinct_butlast)
  show "recency (evict c) = butlast (recency c)"
    by (simp add: ev)
  show "capacity (evict c) = capacity c"
    by (simp add: ev)
  have "set (map fst (AList.delete (last (recency c)) (index c)))
          = set (recency c) - {last (recency c)}"
    using assms(1) by (simp add: cache_inv_def delete_keys)
  also have "\<dots> = set (butlast (recency c))"
  proof -
    have "recency c = butlast (recency c) @ [last (recency c)]"
      using assms(2) by simp
    then have "distinct (butlast (recency c) @ [last (recency c)])"
      and "set (recency c) = set (butlast (recency c) @ [last (recency c)])"
      using assms(1) by (simp_all add: cache_inv_def)
    then show ?thesis by auto
  qed
  finally show "set (map fst (index (evict c))) = set (butlast (recency c))"
    by (simp add: ev)
qed

lemma map_of_None_keys: "map_of al k = None \<longleftrightarrow> k \<notin> set (map fst al)"
  by (simp add: map_of_eq_None_iff)

lemma cache_put_hit_inv:
  assumes inv: "cache_inv c" and hit: "map_of (index c) key = Some e0"
  shows "cache_inv (cache_put c key ctype bytes len)"
proof -
  from inv have d1: "distinct (map fst (index c))" and d2: "distinct (recency c)"
    and eq: "set (map fst (index c)) = set (recency c)"
    and le: "length (recency c) \<le> capacity c" and cap: "1 \<le> capacity c"
    unfolding cache_inv_def by blast+
  have "key \<in> set (map fst (index c))"
    using hit map_of_None_keys [of "index c" key] by auto
  then have mem: "key \<in> set (recency c)"
    by (simp only: eq)
  have len: "length (key # remove1 key (recency c)) = length (recency c)"
    using mem length_pos_if_in_set [OF mem] by (simp add: length_remove1)
  have st: "set (key # remove1 key (recency c)) = set (recency c)"
    using mem d2 by auto
  have keys: "set (map fst (AList.update key v (index c))) = set (recency c)" for v
    using mem eq by (auto simp: dom_update)
  show ?thesis
    using d1 d2 le cap len st keys
    by (simp add: cache_put_def hit cache_inv_def distinct_update del: set_map)
qed

lemma cache_put_miss_inv:
  assumes inv: "cache_inv c" and miss: "map_of (index c) key = None"
  shows "cache_inv (cache_put c key ctype bytes len)"
proof -
  from inv have d1: "distinct (map fst (index c))" and d2: "distinct (recency c)"
    and eq: "set (map fst (index c)) = set (recency c)"
    and le: "length (recency c) \<le> capacity c" and cap: "1 \<le> capacity c"
    unfolding cache_inv_def by blast+
  have fresh: "key \<notin> set (recency c)"
    using miss eq by (simp only: map_of_None_keys) simp
  show ?thesis
  proof (cases "index_size c = capacity c")
    case True
    then have full: "length (recency c) = capacity c"
      using inv by (simp add: index_size_inv)
    then have ne: "recency c \<noteq> []"
      using cap by auto
    note ev = evict_inv [OF inv ne]
    have "key \<notin> set (butlast (recency c))"
      using fresh by (auto dest: in_set_butlastD)
    moreover have "length (butlast (recency c)) < capacity c"
      using full cap by simp
    ultimately show ?thesis
      using True ev cap
      by (simp add: cache_put_def miss cache_inv_def Let_def del: set_map)
  next
    case False
    then have "length (recency c) < capacity c"
      using inv le by (simp add: index_size_inv)
    then show ?thesis
      using False fresh d1 d2 eq cap
      by (simp add: cache_put_def miss cache_inv_def Let_def del: set_map)
  qed
qed

lemma cache_put_inv: "cache_inv c \<Longrightarrow> cache_inv (cache_put c key ctype bytes len)"
  by (cases "map_of (index c) key") (simp_all add: cache_put_miss_inv cache_put_hit_inv)

lemma put_all_snoc: "put_all c (es @ [e]) = put_entry (put_all c es) e"
  by (simp add: put_all_def)

lemma put_all_inv: "cache_inv c \<Longrightarrow> cache_inv (put_all c es)"
  by (induction es rule: rev_induct)
     (simp_all add: put_all_def put_entry_def cache_put_inv)

lemma cache_inv_bound: "cache_inv c \<Longrightarrow> index_size c \<le> capacity c"
  by (simp add: index_size_inv) (simp add: cache_inv_def)

lemma capacity_cache_put: "capacity (cache_put c key ctype bytes len) = capacity c"
  by (simp add: cache_put_def evict_def Let_def split: option.splits list.splits)

lemma capacity_put_all: "capacity (put_all c es) = capacity c"
  by (induction es rule: rev_induct)
     (simp_all add: put_all_def put_entry_def capacity_cache_put)

subsection \<open>Putting fresh keys\<close>

lemma set_butlast_distinct:
  assumes "distinct xs" and "xs \<noteq> []"
  shows "set (butlast xs) = set xs - {last xs}"
proof -
  have "xs = butlast xs @ [last xs]"
    using assms(2) by simp
  then have "distinct (butlast xs @ [last xs])" and "set xs = set (butlast xs @ [last xs])"
    using assms(1) by simp_all
  then show ?thesis by auto
qed

lemma cache_put_fresh:
  assumes inv: "cache_inv c" and fresh: "key \<notin> set (recency c)"
  defines "kept \<equiv> (if length (recency c) = capacity c then butlast (recency c) else recency c)"
  shows "recency (cache_put c key ctype bytes len) = key # kept"
    and "map_of (index (cache_put c key ctype bytes len)) =
           (map_of (index c) |` set kept)
             (key \<mapsto> \<lparr>path = key, content_type = ctype, content_length = len, content = bytes\<rparr>)"
proof -
  from inv have d2: "distinct (recency c)"
    and eq: "set (map fst (index c)) = set (recency c)" and cap: "1 \<le> capacity c"
    unfolding cache_inv_def by blast+
  have miss: "map_of (index c) key = None"
    using fresh eq by (simp only: map_of_None_keys) simp
  have dom: "map_of (index c) k = None" if "k \<notin> set (recency c)" for k
    using that eq by (simp only: map_of_None_keys) simp
  show "recency (cache_put c key ctype bytes len) = key # kept"
  proof (cases "length (recency c) = capacity c")
    case True
    then have "recency c \<noteq> []" using cap by auto
    then show ?thesis
      using True evict_inv(4) [OF inv]
      by (simp add: cache_put_def miss Let_def index_size_inv [OF inv] kept_def)
  next
    case False
    then show ?thesis
      by (simp add: cache_put_def miss Let_def index_size_inv [OF inv] kept_def)
  qed
  show "map_of (index (cache_put c key ctype bytes len)) =
           (map_of (index c) |` set kept)
             (key \<mapsto> \<lparr>path = key, content_type = ctype, content_length = len, content = bytes\<rparr>)"
  proof (cases "length (recency c) = capacity c")
    case True
    then have ne: "recency c \<noteq> []" using cap by auto
    then obtain r rs where rs: "recency c = r # rs"
      by (cases "recency c") auto
    have ev: "index (evict c) = AList.delete (last (recency c)) (index c)"
      by (simp add: evict_def rs)
    have "(map_of (index c))(last (recency c) := None) = map_of (index c) |` set (butlast (recency c))"
    proof
      fix k
      show "((map_of (index c))(last (recency c) := None)) k
              = (map_of (index c) |` set (butlast (recency c))) k"
        using dom [of k] set_butlast_distinct [OF d2 ne]
        by (auto simp: restrict_map_def)
    qed
    then show ?thesis
      using True
      by (simp add: cache_put_def miss Let_def index_size_inv [OF inv] kept_def ev delete_conv')
  next
    case False
    have "map_of (index c) = map_of (index c) |` set (recency c)"
    proof
      fix k
      show "map_of (index c) k = (map_of (index c) |` set (recency c)) k"
        using dom [of k] by (auto simp: restrict_map_def)
    qed
    then show ?thesis
      using False
      by (simp add: cache_put_def miss Let_def index_size_inv [OF inv] kept_def)
  qed
qed

lemma put_all_fresh:
  assumes c0: "index c0 = []" "recency c0 = []" and cap: "1 \<le> capacity c0"
    and dist: "distinct (map path es)"
  shows "recency (put_all c0 es) = take (capacity c0) (rev (map path es)) \<and>
         map_of (index (put_all c0 es)) =
           map_of (map (\<lambda>e. (path e, e)) es) |` set (recency (put_all c0 es))"
  using dist
proof (induction es rule: rev_induct)
  case Nil
  then show ?case by (simp add: put_all_def c0)
next
  case (snoc e es)
  let ?c = "put_all c0 es"
  let ?C = "capacity c0"
  let ?M = "map_of (map (\<lambda>e. (path e, e)) es)"
  from snoc.prems have dist': "distinct (map path es)" and new: "path e \<notin> set (map path es)"
    by simp_all
  from snoc.IH [OF dist'] have rec: "recency ?c = take ?C (rev (map path es))"
    and idx: "map_of (index ?c) = ?M |` set (recency ?c)"
    by blast+
  have inv0: "cache_inv c0"
    using c0 cap by (simp add: cache_inv_def)
  have inv: "cache_inv ?c"
    using inv0 by (rule put_all_inv)
  have capc: "capacity ?c = ?C"
    by (rule capacity_put_all)
  have fresh: "path e \<notin> set (recency ?c)"
    using new set_take_subset [of ?C "rev (map path es)"] by (auto simp: rec)
  have none: "?M (path e) = None"
    using new by (simp add: map_of_eq_None_iff image_image)
  have e_eq: "\<lparr>path = path e, content_type = content_type e,
               content_length = content_length e, content = content e\<rparr> = e"
    by simp
  let ?kept = "(if length (recency ?c) = ?C then butlast (recency ?c) else recency ?c)"
  have step: "put_all c0 (es @ [e]) = cache_put ?c (path e) (content_type e) (content e) (content_length e)"
    by (simp add: put_all_snoc put_entry_def)
  have r': "recency (put_all c0 (es @ [e])) = path e # ?kept"
    using cache_put_fresh(1) [OF inv fresh] by (simp only: step capc)
  have m': "map_of (index (put_all c0 (es @ [e]))) = (map_of (index ?c) |` set ?kept)(path e \<mapsto> e)"
    using cache_put_fresh(2) [OF inv fresh] by (simp only: step capc e_eq)
  have kept: "?kept = take (?C - 1) (rev (map path es))"
  proof (cases "length (recency ?c) = ?C")
    case True
    then have "?C \<le> length (rev (map path es))"
      by (simp add: rec)
    then show ?thesis
      using True by (simp add: rec butlast_take)
  next
    case False
    then have "length (map path es) < ?C"
      by (simp add: rec min_def split: if_splits)
    then show ?thesis
      using False by (simp add: rec)
  qed
  have r'': "recency (put_all c0 (es @ [e])) = take ?C (rev (map path (es @ [e])))"
    using cap by (simp add: r' kept take_Cons')
  have sub: "set ?kept \<subseteq> set (recency ?c)"
    by (auto dest: in_set_butlastD)
  have "(map_of (index ?c) |` set ?kept)(path e \<mapsto> e)
          = map_of (map (\<lambda>e. (path e, e)) (es @ [e])) |` set (path e # ?kept)"
  proof
    fix k
    show "((map_of (index ?c) |` set ?kept)(path e \<mapsto> e)) k
            = (map_of (map (\<lambda>e. (path e, e)) (es @ [e])) |` set (path e # ?kept)) k"
    proof (cases "k = path e")
      case True
      then show ?thesis
        using none by (simp add: restrict_map_def map_add_def)
    next
      case False
      then show ?thesis
        using sub by (auto simp: idx restrict_map_def map_add_def split: option.splits)
    qed
  qed
  then show ?case
    using r'' by (simp only: m' r')
qed

lemma fst_cache_get: "fst (cache_get c key) = map_of (index c) key"
  by (simp add: cache_get_def split: option.splits)

subsection \<open>The claims on the cache\<close>

text \<open>
  C1 (capacity invariant, I1). On the cache that \<^verbatim>\<open>main\<close> creates with
  \<^verbatim>\<open>cache_create(10, 0)\<close>, after each call of a sequence of \<^verbatim>\<open>cache_put\<close> calls with
  distinct keys the index holds at most 10 entries: the bound holds after the first \<open>n\<close>
  calls, for every \<open>n\<close>.
\<close>

theorem capacity_invariant:
  assumes "cache_create 10 0 = Some c0"
    and "distinct (map path es)"
    and "n \<le> length es"
  shows "index_size (put_all c0 (take n es)) \<le> 10"
proof -
  have "cache_inv c0"
    using assms(1) by (rule cache_create_inv)
  then have "cache_inv (put_all c0 (take n es))"
    by (rule put_all_inv)
  then have "index_size (put_all c0 (take n es)) \<le> capacity (put_all c0 (take n es))"
    by (rule cache_inv_bound)
  moreover have "capacity c0 = 10"
    using assms(1) by (auto simp: cache_create_def)
  ultimately show ?thesis
    by (simp add: capacity_put_all)
qed

theorem capacity_invariant_witness:
  "cache_create 10 0 = Some \<lparr>capacity = 10, index = [], recency = []\<rparr> \<and>
   distinct (map path (map (\<lambda>k. \<lparr>path = k, content_type = ''text/html'',
       content_length = 2, content = ''hi''\<rparr>)
     [''a'', ''b'', ''c'', ''d'', ''e'', ''f'', ''g'', ''h'', ''i'', ''j'', ''k''])) \<and>
   (11::nat) \<le> length (map (\<lambda>k. \<lparr>path = k, content_type = ''text/html'',
       content_length = 2, content = ''hi''\<rparr>)
     [''a'', ''b'', ''c'', ''d'', ''e'', ''f'', ''g'', ''h'', ''i'', ''j'', ''k'']) \<and>
   index_size (put_all \<lparr>capacity = 10, index = [], recency = []\<rparr>
     (take 11 (map (\<lambda>k. \<lparr>path = k, content_type = ''text/html'',
       content_length = 2, content = ''hi''\<rparr>)
     [''a'', ''b'', ''c'', ''d'', ''e'', ''f'', ''g'', ''h'', ''i'', ''j'', ''k'']))) \<le> 10"
proof -
  let ?c = "\<lparr>capacity = 10, index = [], recency = []\<rparr>"
  let ?es = "map (\<lambda>k. \<lparr>path = k, content_type = ''text/html'',
       content_length = 2, content = ''hi''\<rparr>)
     [''a'', ''b'', ''c'', ''d'', ''e'', ''f'', ''g'', ''h'', ''i'', ''j'', ''k'']"
  have a: "cache_create 10 0 = Some ?c"
    by (simp add: cache_create_def)
  have b: "distinct (map path ?es)"
    by simp
  have c: "(11::nat) \<le> length ?es"
    by simp
  from a b c capacity_invariant [OF a b c] show ?thesis
    by blast
qed

text \<open>
  C2 (LRU correctness). On a cache created with capacity \<open>C\<close>, putting \<open>C + 1\<close> entries
  with distinct keys, in order and with no \<^verbatim>\<open>cache_get\<close> in between, evicts exactly the
  first: afterwards \<^verbatim>\<open>cache_get\<close> finds nothing under the first key, and under the key of
  each later entry (positions 1 to \<open>C\<close>, counted from 0) it finds that entry.
\<close>

theorem lru_evicts_first:
  assumes "cache_create (int C) h = Some c0"
    and "distinct (map path es)"
    and "length es = C + 1"
  shows "fst (cache_get (put_all c0 es) (path (es ! 0))) = None \<and>
         (\<forall>i. 1 \<le> i \<and> i \<le> C \<longrightarrow>
            fst (cache_get (put_all c0 es) (path (es ! i))) = Some (es ! i))"
proof -
  from assms(1) have cap: "1 \<le> C" and c0: "index c0 = []" "recency c0 = []" "capacity c0 = C"
    by (auto simp: cache_create_def split: if_splits)
  from assms(3) obtain e0 rest where es: "es = e0 # rest" and len: "length rest = C"
    by (cases es) auto
  from put_all_fresh [OF c0(1,2) _ assms(2)] cap c0(3)
  have rec: "recency (put_all c0 es) = take C (rev (map path es))"
    and idx: "map_of (index (put_all c0 es)) =
                map_of (map (\<lambda>e. (path e, e)) es) |` set (recency (put_all c0 es))"
    by simp_all
  have "take C (rev (map path es)) = rev (map path rest)"
    using len by (simp add: es)
  then have rec': "recency (put_all c0 es) = rev (map path rest)"
    by (simp only: rec)
  have dk: "distinct (map fst (map (\<lambda>e. (path e, e)) es))"
    using assms(2) by (simp add: comp_def)
  have "path (es ! 0) \<notin> set (rev (map path rest))"
    using assms(2) by (simp add: es)
  then have first: "path (es ! 0) \<notin> set (recency (put_all c0 es))"
    by (simp add: rec')
  have "map_of (index (put_all c0 es)) (path (es ! 0)) = None"
    using first by (simp add: idx restrict_map_def)
  moreover have "map_of (index (put_all c0 es)) (path (es ! i)) = Some (es ! i)"
    if "1 \<le> i" "i \<le> C" for i
  proof -
    from that obtain j where j: "i = Suc j" "j < length rest"
      using len by (cases i) auto
    then have mem: "rest ! j \<in> set rest"
      by simp
    then have "path (es ! i) \<in> set (rev (map path rest))"
      using j by (simp add: es)
    then have "path (es ! i) \<in> set (recency (put_all c0 es))"
      by (simp add: rec')
    moreover have "(path (es ! i), es ! i) \<in> set (map (\<lambda>e. (path e, e)) es)"
      using mem j by (auto simp: es)
    then have "map_of (map (\<lambda>e. (path e, e)) es) (path (es ! i)) = Some (es ! i)"
      using map_of_eq_Some_iff [OF dk] by blast
    ultimately show ?thesis
      by (simp add: idx restrict_map_def)
  qed
  ultimately show ?thesis
    by (simp add: fst_cache_get)
qed

theorem lru_evicts_first_witness:
  "cache_create (int 2) 0 = Some \<lparr>capacity = 2, index = [], recency = []\<rparr> \<and>
   distinct (map path
     [\<lparr>path = ''a'', content_type = ''text/html'', content_length = 1, content = ''x''\<rparr>,
      \<lparr>path = ''b'', content_type = ''text/html'', content_length = 1, content = ''y''\<rparr>,
      \<lparr>path = ''c'', content_type = ''text/html'', content_length = 1, content = ''z''\<rparr>]) \<and>
   fst (cache_get (put_all \<lparr>capacity = 2, index = [], recency = []\<rparr>
     [\<lparr>path = ''a'', content_type = ''text/html'', content_length = 1, content = ''x''\<rparr>,
      \<lparr>path = ''b'', content_type = ''text/html'', content_length = 1, content = ''y''\<rparr>,
      \<lparr>path = ''c'', content_type = ''text/html'', content_length = 1, content = ''z''\<rparr>])
     ''a'') = None \<and>
   fst (cache_get (put_all \<lparr>capacity = 2, index = [], recency = []\<rparr>
     [\<lparr>path = ''a'', content_type = ''text/html'', content_length = 1, content = ''x''\<rparr>,
      \<lparr>path = ''b'', content_type = ''text/html'', content_length = 1, content = ''y''\<rparr>,
      \<lparr>path = ''c'', content_type = ''text/html'', content_length = 1, content = ''z''\<rparr>])
     ''c'') =
     Some \<lparr>path = ''c'', content_type = ''text/html'', content_length = 1, content = ''z''\<rparr>"
proof -
  let ?c = "\<lparr>capacity = 2, index = [], recency = []\<rparr>"
  let ?es = "[\<lparr>path = ''a'', content_type = ''text/html'', content_length = 1, content = ''x''\<rparr>,
      \<lparr>path = ''b'', content_type = ''text/html'', content_length = 1, content = ''y''\<rparr>,
      \<lparr>path = ''c'', content_type = ''text/html'', content_length = 1, content = ''z''\<rparr>]"
  have a: "cache_create (int 2) 0 = Some ?c"
    by (simp add: cache_create_def)
  have b: "distinct (map path ?es)"
    by simp
  have c: "length ?es = 2 + 1"
    by simp
  note t = lru_evicts_first [OF a b c]
  from t have "fst (cache_get (put_all ?c ?es) (path (?es ! 0))) = None"
    by (rule conjunct1)
  moreover from t have "(1::nat) \<le> 2 \<and> (2::nat) \<le> 2 \<longrightarrow>
      fst (cache_get (put_all ?c ?es) (path (?es ! 2))) = Some (?es ! 2)"
    by blast
  ultimately show ?thesis
    using a b by simp
qed

section \<open>Proofs: the server\<close>

subsection \<open>What each call does\<close>

lemma responses_append: "responses (xs @ ys) = responses xs @ responses ys"
  by (induction xs rule: responses.induct) simp_all

lemma sends_append: "sends (xs @ ys) = sends xs @ sends ys"
  by (induction xs rule: sends.induct) simp_all

lemma cache_calls_append: "cache_calls (xs @ ys) = cache_calls xs @ cache_calls ys"
  by (induction xs rule: cache_calls.induct) simp_all

lemma file_loads_append: "file_loads (xs @ ys) = file_loads xs @ file_loads ys"
  by (induction xs rule: file_loads.induct) simp_all

lemmas events_append = responses_append sends_append cache_calls_append file_loads_append

lemma length_response_head:
  "length (response_head r) =
     length (header r) + length (date r) + length (resp_type r) +
     length (sprintf_d (resp_length r)) + 58"
  by (simp add: response_head_def nl_def)

text \<open>
  \<^verbatim>\<open>send_response\<close> followed by the caller's return, in one equation: the response is
  built from the arguments and the time read; in bounds it is sent, otherwise the
  behaviour is undefined from there.
\<close>

lemma returning_send_response:
  "returning (send_response e fd hdr ctype bytes len w) =
     (if in_bounds \<lparr>header = hdr, date = asctime_local e (clock e (ticks w)), resp_type = ctype,
               resp_length = len, body = bytes\<rparr>
      then Return (w\<lparr>ticks := Suc (ticks w),
               trace := trace w @
                 Send fd \<lparr>header = hdr, date = asctime_local e (clock e (ticks w)),
                     resp_type = ctype, resp_length = len, body = bytes\<rparr>
                   (send_rv e fd (wire \<lparr>header = hdr, date = asctime_local e (clock e (ticks w)),
                     resp_type = ctype, resp_length = len, body = bytes\<rparr>)) #
                 (if send_rv e fd (wire \<lparr>header = hdr,
                       date = asctime_local e (clock e (ticks w)),
                       resp_type = ctype, resp_length = len, body = bytes\<rparr>) < 0
                  then [Stderr ''send''] else [])\<rparr>)
      else Undefined (trace w @
             [Overrun fd \<lparr>header = hdr, date = asctime_local e (clock e (ticks w)),
                 resp_type = ctype, resp_length = len, body = bytes\<rparr>]))"
  by (simp add: returning_def send_response_def time_null_def Let_def log_def)

text \<open>Whether it fits or not, the call adds exactly this response to the events.\<close>

lemma events_send_response:
  "responses (events_of (returning (send_response e fd hdr ctype bytes len w))) =
     responses (trace w) @
       [(fd, \<lparr>header = hdr, date = asctime_local e (clock e (ticks w)), resp_type = ctype,
               resp_length = len, body = bytes\<rparr>)]"
  "cache_calls (events_of (returning (send_response e fd hdr ctype bytes len w))) =
     cache_calls (trace w)"
  "file_loads (events_of (returning (send_response e fd hdr ctype bytes len w))) =
     file_loads (trace w)"
  by (simp_all add: returning_send_response events_append)

lemma returning_cases:
  obtains (sent) w' where "returning (send_response e fd hdr ctype bytes len w) = Return w'"
      and "cache w' = cache w" and "seed w' = seed w" and "drawn w' = drawn w"
      and "sends (trace w') = sends (trace w) @
             [(fd, \<lparr>header = hdr, date = asctime_local e (clock e (ticks w)), resp_type = ctype,
               resp_length = len, body = bytes\<rparr>)]"
      and "in_bounds \<lparr>header = hdr, date = asctime_local e (clock e (ticks w)), resp_type = ctype,
               resp_length = len, body = bytes\<rparr>"
  | (overrun) evs where "returning (send_response e fd hdr ctype bytes len w) = Undefined evs"
      and "sends evs = sends (trace w)"
      and "\<not> in_bounds \<lparr>header = hdr, date = asctime_local e (clock e (ticks w)), resp_type = ctype,
               resp_length = len, body = bytes\<rparr>"
  by (cases "in_bounds \<lparr>header = hdr, date = asctime_local e (clock e (ticks w)), resp_type = ctype,
               resp_length = len, body = bytes\<rparr>")
     (simp_all add: returning_send_response events_append)

text \<open>The paths of \<^verbatim>\<open>get_file\<close> and \<^verbatim>\<open>resp_404\<close>, each up to its \<^verbatim>\<open>send_response\<close>.\<close>

lemma get_file_hit:
  assumes "map_of (index (cache w)) (''./serverroot'' @ uri) = Some ce"
  shows "get_file e fd uri w =
           returning (send_response e fd ''HTTP/1.1 200 OK'' (content_type ce) (content ce)
             (content_length ce)
             (w\<lparr>cache := (cache w)\<lparr>recency := (''./serverroot'' @ uri) #
                        remove1 (''./serverroot'' @ uri) (recency (cache w))\<rparr>,
                trace := trace w @ [Cache_get (''./serverroot'' @ uri) True]\<rparr>))"
  using assms by (simp add: get_file_def cache_get_def Let_def log_def)

lemma get_file_direct:
  assumes "map_of (index (cache w)) (''./serverroot'' @ uri) = None"
    and "files e (''./serverroot'' @ uri) = Some bytes"
  shows "get_file e fd uri w =
           returning (send_response e fd ''HTTP/1.1 200 OK''
             (mime_type_get e (''./serverroot'' @ uri)) bytes (int (length bytes))
             (w\<lparr>cache := cache_put (cache w) (''./serverroot'' @ uri)
                        (mime_type_get e (''./serverroot'' @ uri)) bytes (int (length bytes)),
                trace := trace w @
                  [Cache_get (''./serverroot'' @ uri) False,
                   File_load (''./serverroot'' @ uri) True,
                   Cache_put (''./serverroot'' @ uri) (mime_type_get e (''./serverroot'' @ uri))
                     bytes (int (length bytes))]\<rparr>))"
  using assms by (simp add: get_file_def cache_get_def file_load_def Let_def log_def)

lemma get_file_fallback:
  assumes "map_of (index (cache w)) (''./serverroot'' @ uri) = None"
    and "files e (''./serverroot'' @ uri) = None"
    and "files e (''./serverroot/'' @ uri @ ''/index.html'') = Some bytes"
  shows "get_file e fd uri w =
           returning (send_response e fd ''HTTP/1.1 200 OK''
             (mime_type_get e (''./serverroot/'' @ uri @ ''/index.html'')) bytes
             (int (length bytes))
             (w\<lparr>cache := cache_put (cache w) (''./serverroot/'' @ uri @ ''/index.html'')
                        (mime_type_get e (''./serverroot/'' @ uri @ ''/index.html'')) bytes
                        (int (length bytes)),
                trace := trace w @
                  [Cache_get (''./serverroot'' @ uri) False,
                   File_load (''./serverroot'' @ uri) False,
                   File_load (''./serverroot/'' @ uri @ ''/index.html'') True,
                   Cache_put (''./serverroot/'' @ uri @ ''/index.html'')
                     (mime_type_get e (''./serverroot/'' @ uri @ ''/index.html'')) bytes
                     (int (length bytes))]\<rparr>))"
  using assms by (simp add: get_file_def cache_get_def file_load_def Let_def log_def)

lemma get_file_not_found:
  assumes "map_of (index (cache w)) (''./serverroot'' @ uri) = None"
    and "files e (''./serverroot'' @ uri) = None"
    and "files e (''./serverroot/'' @ uri @ ''/index.html'') = None"
  shows "get_file e fd uri w =
           resp_404 e fd (w\<lparr>trace := trace w @
             [Cache_get (''./serverroot'' @ uri) False,
              File_load (''./serverroot'' @ uri) False,
              File_load (''./serverroot/'' @ uri @ ''/index.html'') False]\<rparr>)"
  using assms by (simp add: get_file_def cache_get_def file_load_def Let_def log_def)

lemma resp_404_found:
  assumes "files e ''./serverfiles/404.html'' = Some bytes"
  shows "resp_404 e fd w =
           returning (send_response e fd ''HTTP/1.1 404 NOT FOUND''
             (mime_type_get e ''./serverfiles/404.html'') bytes (int (length bytes))
             (w\<lparr>trace := trace w @ [File_load ''./serverfiles/404.html'' True]\<rparr>))"
  using assms by (simp add: resp_404_def SERVER_FILES_def file_load_def Let_def log_def)

lemma resp_404_missing:
  assumes "files e ''./serverfiles/404.html'' = None"
  shows "resp_404 e fd w =
           Exit 3 (trace w @ [File_load ''./serverfiles/404.html'' False,
                              Stderr (''cannot find system 404 file'' @ nl)])"
  using assms by (simp add: resp_404_def SERVER_FILES_def file_load_def Let_def log_def)

lemma get_d20_eq:
  "get_d20 e fd w =
     returning (send_response e fd ''HTTP/1.1 200 OK'' ''text/plain''
       (sprintf_d (int (rand_seq e (word_of_int (clock e (ticks w))) 0) mod 20 + 1))
       (int (length (sprintf_d (int (rand_seq e (word_of_int (clock e (ticks w))) 0) mod 20 + 1))))
       (w\<lparr>ticks := Suc (ticks w), seed := word_of_int (clock e (ticks w)), drawn := Suc 0\<rparr>))"
  by (simp add: get_d20_def time_null_def srand_def rand_def Let_def)

lemma handle_GET:
  assumes "sscanf3 request = (Some ''GET'', Some uri, p)" and "length uri < 1024" and "fits 16 p"
  shows "handle_http_request e fd (Received request) w =
           (if uri = ''/d20'' then get_d20 e fd w else get_file e fd uri w)"
  using assms by (simp add: handle_http_request_def fits_def)

subsection \<open>The response of \<^verbatim>\<open>get_d20\<close>\<close>

lemma d20_strings:
  "m < 20 \<Longrightarrow>
   sprintf_d (int m + 1) \<in> set [''20'', ''19'', ''18'', ''17'', ''16'', ''15'', ''14'', ''13'', ''12'', ''11'',
             ''10'', ''9'', ''8'', ''7'', ''6'', ''5'', ''4'', ''3'', ''2'', ''1'']"
proof -
  assume "m < 20"
  then have "m \<in> set [0..<20]"
    by simp
  moreover have "\<forall>m \<in> set [0..<20].
      sprintf_d (int m + 1) \<in> set [''20'', ''19'', ''18'', ''17'', ''16'', ''15'', ''14'', ''13'', ''12'', ''11'',
             ''10'', ''9'', ''8'', ''7'', ''6'', ''5'', ''4'', ''3'', ''2'', ''1'']"
    by code_simp
  ultimately show ?thesis
    by blast
qed

lemma d20_value: "int n mod 20 + 1 = int (n mod 20) + 1" "n mod 20 < 20"
  by (simp_all add: zmod_int)

lemma length_digits_small: "n < 10 \<Longrightarrow> length (digits n) = 1"
  by (subst digits.simps) simp

lemma length_sprintf_d_small: "n < 10 \<Longrightarrow> length (sprintf_d (int n)) = 1"
  by (simp add: sprintf_d_def length_digits_small)

lemma d20_in_bounds:
  assumes "asctime_ok e" and "m < 20"
  shows "in_bounds \<lparr>header = ''HTTP/1.1 200 OK'', date = asctime_local e t,
           resp_type = ''text/plain'', resp_length = int (length (sprintf_d (int m + 1))),
           body = sprintf_d (int m + 1)\<rparr>"
proof -
  have len: "length (sprintf_d (int m + 1)) = 1 \<or> length (sprintf_d (int m + 1)) = 2"
    using d20_strings [OF assms(2)] by auto
  then have "length (sprintf_d (int (length (sprintf_d (int m + 1))))) = 1"
    using length_sprintf_d_small [of 1] length_sprintf_d_small [of 2] by auto
  moreover have "length (asctime_local e t) \<le> 25"
    using assms(1) by (simp add: asctime_ok_def)
  ultimately show ?thesis
    using len by (auto simp: in_bounds_def length_response_head max_response_size_def)
qed

lemma get_d20_ok:
  fixes e :: env and w :: world
  assumes "asctime_ok e"
  defines "v \<equiv> sprintf_d (int (rand_seq e (word_of_int (clock e (ticks w))) 0) mod 20 + 1)"
  defines "r \<equiv> \<lparr>header = ''HTTP/1.1 200 OK'', date = asctime_local e (clock e (Suc (ticks w))),
                 resp_type = ''text/plain'', resp_length = int (length v), body = v\<rparr>"
  shows "\<exists>w'. get_d20 e fd w = Return w' \<and> cache w' = cache w \<and>
           seed w' = word_of_int (clock e (ticks w)) \<and> drawn w' = 1 \<and>
           trace w' = trace w @ Send fd r (send_rv e fd (wire r)) #
                        (if send_rv e fd (wire r) < 0 then [Stderr ''send''] else [])"
proof -
  have v: "v = sprintf_d (int (rand_seq e (word_of_int (clock e (ticks w))) 0 mod 20) + 1)"
    by (simp add: v_def d20_value)
  have "in_bounds r"
    unfolding r_def v by (rule d20_in_bounds [OF assms(1)]) simp
  then show ?thesis
    by (simp add: get_d20_eq returning_send_response r_def v_def)
qed

subsection \<open>The example environment\<close>

lemma example_request_d20:
  "sscanf3 ''GET /d20 HTTP/1.1'' = (Some ''GET'', Some ''/d20'', Some ''HTTP/1.1'')"
  by (simp add: sscanf3_def scan_s_def isspace_def)

lemma example_request_nope:
  "sscanf3 ''GET /nope HTTP/1.1'' = (Some ''GET'', Some ''/nope'', Some ''HTTP/1.1'')"
  by (simp add: sscanf3_def scan_s_def isspace_def)

lemma example_request_post:
  "sscanf3 ''POST /save HTTP/1.1'' = (Some ''POST'', Some ''/save'', Some ''HTTP/1.1'')"
  by (simp add: sscanf3_def scan_s_def isspace_def)

lemma example_asctime_ok: "asctime_ok example_env"
  by (simp add: asctime_ok_def example_env_def nl_def)

subsection \<open>The claims on \<^verbatim>\<open>/d20\<close>\<close>

text \<open>
  C3. A request whose first two tokens are \<^verbatim>\<open>GET\<close> and \<^verbatim>\<open>/d20\<close> is answered with one
  response on its socket: status line \<^verbatim>\<open>HTTP/1.1 200 OK\<close>, content type \<^verbatim>\<open>text/plain\<close>, and
  a body that is the decimal string of one of the integers 1 to 20, with its length as content length.
  (The third token, if any, must fit its buffer, and \<^verbatim>\<open>asctime\<close> must keep to its 25
  characters.)
\<close>

theorem d20_response:
  assumes "sscanf3 request = (Some ''GET'', Some ''/d20'', req_protocol)"
    and "fits 16 req_protocol"
    and "asctime_ok e"
  shows "\<exists>w' r. handle_http_request e fd (Received request) w = Return w' \<and>
           sends (trace w') = sends (trace w) @ [(fd, r)] \<and>
           header r = ''HTTP/1.1 200 OK'' \<and> resp_type r = ''text/plain'' \<and>
           body r \<in> set [''20'', ''19'', ''18'', ''17'', ''16'', ''15'', ''14'', ''13'', ''12'', ''11'',
             ''10'', ''9'', ''8'', ''7'', ''6'', ''5'', ''4'', ''3'', ''2'', ''1''] \<and>
           resp_length r = int (length (body r))"
proof -
  let ?m = "rand_seq e (word_of_int (clock e (ticks w))) 0 mod 20"
  from get_d20_ok [OF assms(3), of fd w]
  obtain w' r where run: "get_d20 e fd w = Return w'"
    and r: "r = \<lparr>header = ''HTTP/1.1 200 OK'', date = asctime_local e (clock e (Suc (ticks w))),
                 resp_type = ''text/plain'',
                 resp_length = int (length (sprintf_d (int (rand_seq e (word_of_int (clock e (ticks w))) 0) mod 20 + 1))),
                 body = sprintf_d (int (rand_seq e (word_of_int (clock e (ticks w))) 0) mod 20 + 1)\<rparr>"
    and tr: "trace w' = trace w @ Send fd r (send_rv e fd (wire r)) #
                        (if send_rv e fd (wire r) < 0 then [Stderr ''send''] else [])"
    by blast
  have "handle_http_request e fd (Received request) w = Return w'"
    using handle_GET [OF assms(1) _ assms(2), of e fd w] run by simp
  moreover have "sends (trace w') = sends (trace w) @ [(fd, r)]"
    by (simp add: tr sends_append)
  moreover have "body r = sprintf_d (int ?m + 1)"
    by (simp add: r d20_value)
  then have "body r \<in> set [''20'', ''19'', ''18'', ''17'', ''16'', ''15'', ''14'', ''13'', ''12'', ''11'',
             ''10'', ''9'', ''8'', ''7'', ''6'', ''5'', ''4'', ''3'', ''2'', ''1'']"
    using d20_strings [of ?m] by simp
  moreover have "header r = ''HTTP/1.1 200 OK''" "resp_type r = ''text/plain''"
    "resp_length r = int (length (body r))"
    by (simp_all add: r)
  ultimately show ?thesis
    by blast
qed



theorem d20_response_witness:
  "sscanf3 ''GET /d20 HTTP/1.1'' = (Some ''GET'', Some ''/d20'', Some ''HTTP/1.1'') \<and>
   fits 16 (Some ''HTTP/1.1'') \<and> asctime_ok example_env \<and>
   (\<exists>w' r. handle_http_request example_env 4 (Received ''GET /d20 HTTP/1.1'') example_world
              = Return w' \<and>
           sends (trace w') = sends (trace example_world) @ [(4, r)] \<and>
           header r = ''HTTP/1.1 200 OK'' \<and> resp_type r = ''text/plain'' \<and>
           body r \<in> set [''20'', ''19'', ''18'', ''17'', ''16'', ''15'', ''14'', ''13'', ''12'', ''11'',
             ''10'', ''9'', ''8'', ''7'', ''6'', ''5'', ''4'', ''3'', ''2'', ''1''] \<and>
           resp_length r = int (length (body r)))"
proof -
  have f: "fits 16 (Some ''HTTP/1.1'')"
    by (simp add: fits_def)
  from d20_response [OF example_request_d20 f example_asctime_ok, of 4 example_world]
  show ?thesis
    using example_request_d20 f example_asctime_ok by blast
qed

text \<open>
  C4. Handling \<^verbatim>\<open>GET /d20\<close> never touches the cache: the cache is the same before and
  after, and the request adds no call of \<^verbatim>\<open>cache_get\<close> or \<^verbatim>\<open>cache_put\<close> to the events.
\<close>

theorem d20_leaves_cache:
  assumes "sscanf3 request = (Some ''GET'', Some ''/d20'', req_protocol)"
    and "fits 16 req_protocol"
    and "asctime_ok e"
  shows "\<exists>w'. handle_http_request e fd (Received request) w = Return w' \<and>
           cache w' = cache w \<and> cache_calls (trace w') = cache_calls (trace w)"
proof -
  from get_d20_ok [OF assms(3), of fd w]
  obtain w' r where run: "get_d20 e fd w = Return w'" and same: "cache w' = cache w"
    and tr: "trace w' = trace w @ Send fd r (send_rv e fd (wire r)) #
                        (if send_rv e fd (wire r) < 0 then [Stderr ''send''] else [])"
    by blast
  have "handle_http_request e fd (Received request) w = Return w'"
    using handle_GET [OF assms(1) _ assms(2), of e fd w] run by simp
  moreover have "cache_calls (trace w') = cache_calls (trace w)"
    by (simp add: tr cache_calls_append)
  ultimately show ?thesis
    using same by blast
qed

theorem d20_leaves_cache_witness:
  "sscanf3 ''GET /d20 HTTP/1.1'' = (Some ''GET'', Some ''/d20'', Some ''HTTP/1.1'') \<and>
   fits 16 (Some ''HTTP/1.1'') \<and> asctime_ok example_env \<and>
   (\<exists>w'. handle_http_request example_env 4 (Received ''GET /d20 HTTP/1.1'') example_world
              = Return w' \<and>
           cache w' = cache example_world \<and>
           cache_calls (trace w') = cache_calls (trace example_world))"
proof -
  have f: "fits 16 (Some ''HTTP/1.1'')"
    by (simp add: fits_def)
  from d20_leaves_cache [OF example_request_d20 f example_asctime_ok, of 4 example_world]
  show ?thesis
    using example_request_d20 f example_asctime_ok by blast
qed

text \<open>
  C10. The value sent for \<^verbatim>\<open>GET /d20\<close> is a function of the second in which the request
  is served: two such requests for which \<^verbatim>\<open>time(NULL)\<close> returns the same value get equal
  bodies, whatever the generator's state was before, because each request seeds the
  generator with the time and draws once.
\<close>

theorem d20_same_second:
  assumes "sscanf3 request1 = (Some ''GET'', Some ''/d20'', p1)" and "fits 16 p1"
    and "sscanf3 request2 = (Some ''GET'', Some ''/d20'', p2)" and "fits 16 p2"
    and "asctime_ok e"
    and "clock e (ticks w1) = clock e (ticks w2)"
  shows "\<exists>w1' w2' r1 r2.
           handle_http_request e fd1 (Received request1) w1 = Return w1' \<and>
           handle_http_request e fd2 (Received request2) w2 = Return w2' \<and>
           sends (trace w1') = sends (trace w1) @ [(fd1, r1)] \<and>
           sends (trace w2') = sends (trace w2) @ [(fd2, r2)] \<and>
           body r1 = body r2 \<and>
           seed w1' = word_of_int (clock e (ticks w1)) \<and> seed w2' = seed w1' \<and>
           drawn w1' = 1 \<and> drawn w2' = 1"
proof -
  from get_d20_ok [OF assms(5), of fd1 w1]
  obtain w1' r1 where run1: "get_d20 e fd1 w1 = Return w1'"
    and r1: "body r1 = sprintf_d (int (rand_seq e (word_of_int (clock e (ticks w1))) 0) mod 20 + 1)"
    and s1: "seed w1' = word_of_int (clock e (ticks w1))" "drawn w1' = 1"
    and tr1: "trace w1' = trace w1 @ Send fd1 r1 (send_rv e fd1 (wire r1)) #
                        (if send_rv e fd1 (wire r1) < 0 then [Stderr ''send''] else [])"
    by force
  from get_d20_ok [OF assms(5), of fd2 w2]
  obtain w2' r2 where run2: "get_d20 e fd2 w2 = Return w2'"
    and r2: "body r2 = sprintf_d (int (rand_seq e (word_of_int (clock e (ticks w2))) 0) mod 20 + 1)"
    and s2: "seed w2' = word_of_int (clock e (ticks w2))" "drawn w2' = 1"
    and tr2: "trace w2' = trace w2 @ Send fd2 r2 (send_rv e fd2 (wire r2)) #
                        (if send_rv e fd2 (wire r2) < 0 then [Stderr ''send''] else [])"
    by force
  have "handle_http_request e fd1 (Received request1) w1 = Return w1'"
    using handle_GET [OF assms(1) _ assms(2), of e fd1 w1] run1 by simp
  moreover have "handle_http_request e fd2 (Received request2) w2 = Return w2'"
    using handle_GET [OF assms(3) _ assms(4), of e fd2 w2] run2 by simp
  moreover have "sends (trace w1') = sends (trace w1) @ [(fd1, r1)]"
    by (simp add: tr1 sends_append)
  moreover have "sends (trace w2') = sends (trace w2) @ [(fd2, r2)]"
    by (simp add: tr2 sends_append)
  moreover have "body r1 = body r2"
    by (simp add: r1 r2 assms(6))
  moreover have "seed w2' = seed w1'"
    by (simp add: s1 s2 assms(6))
  ultimately show ?thesis
    using s1 s2 by blast
qed


theorem d20_same_second_witness:
  "sscanf3 ''GET /d20 HTTP/1.1'' = (Some ''GET'', Some ''/d20'', Some ''HTTP/1.1'') \<and>
   fits 16 (Some ''HTTP/1.1'') \<and> asctime_ok example_env \<and>
   clock example_env (ticks example_world)
     = clock example_env (ticks (example_world\<lparr>seed := 77, drawn := 5, ticks := 2\<rparr>)) \<and>
   (\<exists>w1' w2' r1 r2.
      handle_http_request example_env 4 (Received ''GET /d20 HTTP/1.1'') example_world
        = Return w1' \<and>
      handle_http_request example_env 5 (Received ''GET /d20 HTTP/1.1'')
        (example_world\<lparr>seed := 77, drawn := 5, ticks := 2\<rparr>) = Return w2' \<and>
      sends (trace w1') = sends (trace example_world) @ [(4, r1)] \<and>
      sends (trace w2')
        = sends (trace (example_world\<lparr>seed := 77, drawn := 5, ticks := 2\<rparr>)) @ [(5, r2)] \<and>
      body r1 = body r2 \<and>
      seed w1' = word_of_int (clock example_env (ticks example_world)) \<and>
      seed w2' = seed w1' \<and> drawn w1' = 1 \<and> drawn w2' = 1)"
proof -
  have f: "fits 16 (Some ''HTTP/1.1'')"
    by (simp add: fits_def)
  have c: "clock example_env (ticks example_world)
     = clock example_env (ticks (example_world\<lparr>seed := 77, drawn := 5, ticks := 2\<rparr>))"
    by (simp add: example_env_def example_world_def)
  from d20_same_second [OF example_request_d20 f example_request_d20 f example_asctime_ok c, of 4 5]
  show ?thesis
    using example_request_d20 f example_asctime_ok c by blast
qed

subsection \<open>Status lines and exit codes\<close>

lemma sends_responses: "set (sends evs) \<subseteq> set (responses evs)"
  by (induction evs rule: responses.induct) auto

lemma status_ok_Nil: "status_ok []"
  by (simp add: status_ok_def)

lemma status_ok_same: "responses evs' = responses evs \<Longrightarrow> status_ok evs \<Longrightarrow> status_ok evs'"
  by (simp add: status_ok_def)

lemma returning_status:
  assumes "status_ok (trace w)"
    and "hdr = ''HTTP/1.1 200 OK'' \<or> hdr = ''HTTP/1.1 404 NOT FOUND''"
  shows "status_ok (events_of (returning (send_response e fd hdr ctype bytes len w)))"
  using assms by (auto simp: status_ok_def events_send_response)

lemma resp_404_status:
  assumes "status_ok (trace w)"
  shows "status_ok (events_of (resp_404 e fd w))"
proof (cases "files e ''./serverfiles/404.html''")
  case None
  then show ?thesis
    using assms by (simp add: resp_404_missing status_ok_def events_append)
next
  case (Some bytes)
  have "status_ok (trace (w\<lparr>trace := trace w @ [File_load ''./serverfiles/404.html'' True]\<rparr>))"
    using assms by (simp add: status_ok_def events_append)
  then show ?thesis
    unfolding resp_404_found [OF Some] by (rule returning_status) simp
qed

lemma get_file_status:
  assumes "status_ok (trace w)"
  shows "status_ok (events_of (get_file e fd uri w))"
proof (cases "map_of (index (cache w)) (''./serverroot'' @ uri)")
  case (Some ce)
  have "status_ok (trace (w\<lparr>cache := (cache w)\<lparr>recency := (''./serverroot'' @ uri) #
                        remove1 (''./serverroot'' @ uri) (recency (cache w))\<rparr>,
                trace := trace w @ [Cache_get (''./serverroot'' @ uri) True]\<rparr>))"
    using assms by (simp add: status_ok_def events_append)
  then show ?thesis
    unfolding get_file_hit [OF Some] by (rule returning_status) simp
next
  case None
  note miss = None
  show ?thesis
  proof (cases "files e (''./serverroot'' @ uri)")
    case (Some bytes)
    have "status_ok (trace (w\<lparr>cache := cache_put (cache w) (''./serverroot'' @ uri)
                        (mime_type_get e (''./serverroot'' @ uri)) bytes (int (length bytes)),
                trace := trace w @
                  [Cache_get (''./serverroot'' @ uri) False,
                   File_load (''./serverroot'' @ uri) True,
                   Cache_put (''./serverroot'' @ uri) (mime_type_get e (''./serverroot'' @ uri))
                     bytes (int (length bytes))]\<rparr>))"
      using assms by (simp add: status_ok_def events_append)
    then show ?thesis
      unfolding get_file_direct [OF miss Some] by (rule returning_status) simp
  next
    case None
    note nodirect = None
    show ?thesis
    proof (cases "files e (''./serverroot/'' @ uri @ ''/index.html'')")
      case (Some bytes)
      have "status_ok (trace (w\<lparr>cache := cache_put (cache w) (''./serverroot/'' @ uri @ ''/index.html'')
                        (mime_type_get e (''./serverroot/'' @ uri @ ''/index.html'')) bytes
                        (int (length bytes)),
                trace := trace w @
                  [Cache_get (''./serverroot'' @ uri) False,
                   File_load (''./serverroot'' @ uri) False,
                   File_load (''./serverroot/'' @ uri @ ''/index.html'') True,
                   Cache_put (''./serverroot/'' @ uri @ ''/index.html'')
                     (mime_type_get e (''./serverroot/'' @ uri @ ''/index.html'')) bytes
                     (int (length bytes))]\<rparr>))"
        using assms by (simp add: status_ok_def events_append)
      then show ?thesis
        unfolding get_file_fallback [OF miss nodirect Some] by (rule returning_status) simp
    next
      case None
      have "status_ok (trace (w\<lparr>trace := trace w @
             [Cache_get (''./serverroot'' @ uri) False,
              File_load (''./serverroot'' @ uri) False,
              File_load (''./serverroot/'' @ uri @ ''/index.html'') False]\<rparr>))"
        using assms by (simp add: status_ok_def events_append)
      then show ?thesis
        unfolding get_file_not_found [OF miss nodirect None] by (rule resp_404_status)
    qed
  qed
qed

lemma get_d20_status:
  assumes "status_ok (trace w)"
  shows "status_ok (events_of (get_d20 e fd w))"
proof -
  have "status_ok (trace (w\<lparr>ticks := Suc (ticks w), seed := word_of_int (clock e (ticks w)),
                             drawn := Suc 0\<rparr>))"
    using assms by simp
  then show ?thesis
    unfolding get_d20_eq by (rule returning_status) simp
qed

lemma handle_http_request_status:
  assumes "status_ok (trace w)"
  shows "status_ok (events_of (handle_http_request e fd rcv w))"
proof (cases rcv)
  case Recv_failed
  then show ?thesis
    using assms by (simp add: handle_http_request_def status_ok_def log_def events_append)
next
  case (Received request)
  obtain m u p where sc: "sscanf3 request = (m, u, p)"
    by (cases "sscanf3 request") auto
  show ?thesis
    using assms get_d20_status [OF assms, of e fd] get_file_status [OF assms, of e fd]
    by (simp add: handle_http_request_def Received sc split: option.splits)
qed

lemma serve_one_status:
  assumes "status_ok (trace w)"
  shows "status_ok (events_of (serve_one e conn w))"
proof -
  obtain newfd rcv where conn: "conn = (newfd, rcv)" by (cases conn)
  show ?thesis
  proof (cases "newfd = - 1")
    case True
    then show ?thesis
      using assms by (simp add: serve_one_def conn status_ok_def log_def events_append)
  next
    case False
    from handle_http_request_status [OF assms, of e newfd rcv]
    show ?thesis
      using False
      by (cases "handle_http_request e newfd rcv w")
         (simp_all add: serve_one_def conn status_ok_def log_def events_append)
  qed
qed

lemma serve_status:
  "status_ok (trace w) \<Longrightarrow> status_ok (events_of (serve e conns w))"
proof (induction conns arbitrary: w)
  case Nil
  then show ?case by simp
next
  case (Cons conn conns)
  from serve_one_status [OF Cons.prems, of e conn]
  show ?case
    using Cons.IH by (cases "serve_one e conn w") simp_all
qed

lemma main_status: "status_ok (events_of (main e listenfd conns))"
proof -
  let ?w = "\<lparr>cache = \<lparr>capacity = 10, index = [], recency = []\<rparr>,
             seed = 1, drawn = 0, ticks = 0, trace = []\<rparr>"
  have "status_ok (trace ?w)"
    by (simp add: status_ok_Nil)
  from serve_status [OF this, of e conns]
  show ?thesis
    by (simp add: main_def cache_create_def Let_def status_ok_def)
qed

lemma returning_not_exit: "returning x \<noteq> Exit code evs"
  by (simp add: returning_def split: sum.splits prod.splits)

lemma resp_404_exit: "resp_404 e fd w = Exit code evs \<Longrightarrow> code = 3"
  by (cases "files e ''./serverfiles/404.html''")
     (simp_all add: resp_404_missing resp_404_found returning_not_exit)

lemma get_file_exit:
  assumes "get_file e fd uri w = Exit code evs"
  shows "code = 3"
proof (cases "map_of (index (cache w)) (''./serverroot'' @ uri)")
  case (Some ce)
  then show ?thesis
    using assms by (simp add: get_file_hit returning_not_exit)
next
  case None
  note miss = None
  show ?thesis
  proof (cases "files e (''./serverroot'' @ uri)")
    case (Some bytes)
    then show ?thesis
      using assms miss by (simp add: get_file_direct returning_not_exit)
  next
    case None
    note nodirect = None
    show ?thesis
    proof (cases "files e (''./serverroot/'' @ uri @ ''/index.html'')")
      case (Some bytes)
      then show ?thesis
        using assms miss nodirect by (simp add: get_file_fallback returning_not_exit)
    next
      case None
      then show ?thesis
        using assms resp_404_exit by (simp add: get_file_not_found [OF miss nodirect])
    qed
  qed
qed

lemma handle_http_request_exit:
  assumes "handle_http_request e fd rcv w = Exit code evs"
  shows "code = 3"
proof (cases rcv)
  case Recv_failed
  then show ?thesis
    using assms by (simp add: handle_http_request_def)
next
  case (Received request)
  obtain m u p where sc: "sscanf3 request = (m, u, p)"
    by (cases "sscanf3 request") auto
  have "get_file e fd uri w = Exit code evs \<Longrightarrow> code = 3" for uri
    by (rule get_file_exit)
  moreover have "get_d20 e fd w \<noteq> Exit code evs"
    by (simp add: get_d20_eq returning_not_exit)
  ultimately show ?thesis
    using assms
    by (simp add: handle_http_request_def Received sc split: option.splits if_splits)
qed

lemma serve_one_exit: "serve_one e conn w = Exit code evs \<Longrightarrow> code = 3"
  by (auto simp: serve_one_def split: prod.splits if_splits outcome.splits
           dest: handle_http_request_exit)

lemma serve_exit: "serve e conns w = Exit code evs \<Longrightarrow> code = 3"
  by (induction conns arbitrary: w) (auto split: outcome.splits dest: serve_one_exit)

text \<open>
  The exit codes of \<^verbatim>\<open>main\<close>: 1 when there is no listening socket, and 3, which only
  \<^verbatim>\<open>resp_404\<close> uses.
\<close>

lemma main_exit:
  "main e listenfd conns = Exit code evs \<Longrightarrow>
   (code = 1 \<and> listenfd < 0) \<or> (code = 3 \<and> 0 \<le> listenfd)"
  by (auto simp: main_def cache_create_def Let_def split: if_splits dest: serve_exit)


lemma example_404_in_bounds:
  "in_bounds \<lparr>header = ''HTTP/1.1 404 NOT FOUND'', date = ''Thu Jan  1 00:16:40 1970'' @ nl,
     resp_type = ''text/html'', resp_length = 9, body = ''not found''\<rparr>"
  by (simp add: in_bounds_def length_response_head max_response_size_def nl_def
        length_sprintf_d_small [of 9, simplified])

lemma example_run_404:
  "\<exists>w'. main example_env 3 [(4, Received ''GET /nope HTTP/1.1'')] = Return w' \<and>
     sends (trace w') =
       [(4, \<lparr>header = ''HTTP/1.1 404 NOT FOUND'', date = ''Thu Jan  1 00:16:40 1970'' @ nl,
              resp_type = ''text/html'', resp_length = 9, body = ''not found''\<rparr>)]"
proof -
  have f: "files example_env ''./serverfiles/404.html'' = Some ''not found''"
    by (simp add: example_env_def)
  have g: "get_file example_env 4 ''/nope'' example_world =
             resp_404 example_env 4 (example_world\<lparr>trace := trace example_world @
               [Cache_get (''./serverroot'' @ ''/nope'') False,
                File_load (''./serverroot'' @ ''/nope'') False,
                File_load (''./serverroot/'' @ ''/nope'' @ ''/index.html'') False]\<rparr>)"
    by (rule get_file_not_found) (simp_all add: example_env_def example_world_def)
  have b: "in_bounds \<lparr>header = ''HTTP/1.1 404 NOT FOUND'',
             date = asctime_local example_env (clock example_env (ticks example_world)),
             resp_type = mime_type_get example_env ''./serverfiles/404.html'',
             resp_length = 9, body = ''not found''\<rparr>"
    using example_404_in_bounds by (simp add: example_env_def)
  have "\<exists>w'. handle_http_request example_env 4 (Received ''GET /nope HTTP/1.1'') example_world
               = Return w' \<and>
          sends (trace w') =
            [(4, \<lparr>header = ''HTTP/1.1 404 NOT FOUND'', date = ''Thu Jan  1 00:16:40 1970'' @ nl,
              resp_type = ''text/html'', resp_length = 9, body = ''not found''\<rparr>)]"
    using b
    by (simp add: handle_GET [OF example_request_nope] fits_def g resp_404_found [OF f]
          returning_send_response events_append)
       (simp add: example_env_def example_world_def)
  then obtain w' where
    h: "handle_http_request example_env 4 (Received ''GET /nope HTTP/1.1'') example_world
          = Return w'"
    and s: "sends (trace w') =
            [(4, \<lparr>header = ''HTTP/1.1 404 NOT FOUND'', date = ''Thu Jan  1 00:16:40 1970'' @ nl,
              resp_type = ''text/html'', resp_length = 9, body = ''not found''\<rparr>)]"
    by blast
  have "main example_env 3 [(4, Received ''GET /nope HTTP/1.1'')] = Return (log (Close 4) w')"
    using h by (simp add: main_def cache_create_def Let_def serve_one_def example_world_def)
  moreover have "sends (trace (log (Close 4) w')) =
            [(4, \<lparr>header = ''HTTP/1.1 404 NOT FOUND'', date = ''Thu Jan  1 00:16:40 1970'' @ nl,
              resp_type = ''text/html'', resp_length = 9, body = ''not found''\<rparr>)]"
    by (simp add: log_def s events_append)
  ultimately show ?thesis
    by blast
qed

subsection \<open>The claims on failures and status lines\<close>

text \<open>
  C7. When a 404 response is needed (a \<^verbatim>\<open>GET\<close> request, not for \<^verbatim>\<open>/d20\<close>, that misses the
  cache and finds neither the file nor its \<^verbatim>\<open>index.html\<close>) and \<^verbatim>\<open>./serverfiles/404.html\<close>
  cannot be loaded, the process ends with exit code 3: no response is built or sent for the
  request, and the connections that follow are not served. The code is this failure's
  own: by \<open>main_exit\<close> the only other exit code of \<^verbatim>\<open>main\<close> is 1, for a listening socket
  that could not be opened.
\<close>

theorem missing_404_document_is_fatal:
  assumes "sscanf3 request = (Some ''GET'', Some uri, p)"
    and "length uri < 1024" and "fits 16 p" and "uri \<noteq> ''/d20''"
    and "map_of (index (cache w)) (''./serverroot'' @ uri) = None"
    and "files e (''./serverroot'' @ uri) = None"
    and "files e (''./serverroot/'' @ uri @ ''/index.html'') = None"
    and "files e ''./serverfiles/404.html'' = None"
    and "newfd \<noteq> - 1"
  shows "\<exists>evs. serve e ((newfd, Received request) # conns) w = Exit 3 evs \<and>
           responses evs = responses (trace w) \<and>
           file_loads evs = file_loads (trace w) @
             [(''./serverroot'' @ uri, False),
              (''./serverroot/'' @ uri @ ''/index.html'', False),
              (''./serverfiles/404.html'', False)]"
proof -
  let ?evs = "trace w @
               [Cache_get (''./serverroot'' @ uri) False,
                File_load (''./serverroot'' @ uri) False,
                File_load (''./serverroot/'' @ uri @ ''/index.html'') False,
                File_load ''./serverfiles/404.html'' False,
                Stderr (''cannot find system 404 file'' @ nl)]"
  have "get_file e newfd uri w = Exit 3 ?evs"
    by (simp add: get_file_not_found [OF assms(5,6,7)] resp_404_missing [OF assms(8)])
  then have "handle_http_request e newfd (Received request) w = Exit 3 ?evs"
    using handle_GET [OF assms(1,2,3), of e newfd w] assms(4) by simp
  then have "serve e ((newfd, Received request) # conns) w = Exit 3 ?evs"
    using assms(9) by (simp add: serve_one_def)
  moreover have "responses ?evs = responses (trace w)"
    by (simp add: events_append)
  moreover have "file_loads ?evs = file_loads (trace w) @
             [(''./serverroot'' @ uri, False),
              (''./serverroot/'' @ uri @ ''/index.html'', False),
              (''./serverfiles/404.html'', False)]"
    by (simp add: events_append)
  ultimately show ?thesis
    by blast
qed

theorem missing_404_document_is_fatal_witness:
  "sscanf3 ''GET /nope HTTP/1.1'' = (Some ''GET'', Some ''/nope'', Some ''HTTP/1.1'') \<and>
   length ''/nope'' < 1024 \<and> fits 16 (Some ''HTTP/1.1'') \<and> ''/nope'' \<noteq> ''/d20'' \<and>
   map_of (index (cache example_world)) (''./serverroot'' @ ''/nope'') = None \<and>
   files (example_env\<lparr>files := Map.empty\<rparr>) (''./serverroot'' @ ''/nope'') = None \<and>
   files (example_env\<lparr>files := Map.empty\<rparr>) (''./serverroot/'' @ ''/nope'' @ ''/index.html'') = None \<and>
   files (example_env\<lparr>files := Map.empty\<rparr>) ''./serverfiles/404.html'' = None \<and>
   (4::int) \<noteq> - 1 \<and>
   (\<exists>evs. serve (example_env\<lparr>files := Map.empty\<rparr>)
            ((4, Received ''GET /nope HTTP/1.1'') # [(5, Received ''GET /d20 HTTP/1.1'')])
            example_world = Exit 3 evs \<and>
         responses evs = responses (trace example_world) \<and>
         file_loads evs = file_loads (trace example_world) @
           [(''./serverroot'' @ ''/nope'', False),
            (''./serverroot/'' @ ''/nope'' @ ''/index.html'', False),
            (''./serverfiles/404.html'', False)])"
proof -
  let ?e = "example_env\<lparr>files := Map.empty\<rparr>"
  have a: "length ''/nope'' < 1024" "fits 16 (Some ''HTTP/1.1'')" "''/nope'' \<noteq> ''/d20''"
    by (simp_all add: fits_def)
  have b: "map_of (index (cache example_world)) (''./serverroot'' @ ''/nope'') = None"
    by (simp add: example_world_def)
  have c: "files ?e (''./serverroot'' @ ''/nope'') = None"
    "files ?e (''./serverroot/'' @ ''/nope'' @ ''/index.html'') = None"
    "files ?e ''./serverfiles/404.html'' = None"
    by simp_all
  have d: "(4::int) \<noteq> - 1"
    by simp
  from missing_404_document_is_fatal [OF example_request_nope a b c d,
      of "[(5, Received ''GET /d20 HTTP/1.1'')]"]
  show ?thesis
    using example_request_nope a b c d by blast
qed

text \<open>
  C8. In every run of \<^verbatim>\<open>main\<close>, whatever the connections bring, each response handed to
  \<^verbatim>\<open>send\<close> has the status line \<^verbatim>\<open>HTTP/1.1 200 OK\<close> or \<^verbatim>\<open>HTTP/1.1 404 NOT FOUND\<close>. A
  connection whose \<^verbatim>\<open>recv\<close> fails, and one whose request has a method other than \<^verbatim>\<open>GET\<close>,
  is closed with nothing sent on it and the state otherwise as it was.
\<close>

theorem responses_are_200_or_404:
  "(\<forall>(fd, r) \<in> set (sends (events_of (main e listenfd conns))).
      header r = ''HTTP/1.1 200 OK'' \<or> header r = ''HTTP/1.1 404 NOT FOUND'') \<and>
   (newfd \<noteq> - 1 \<longrightarrow>
      serve_one e (newfd, Recv_failed) w = Return (log (Close newfd) (log (Stderr ''recv'') w))) \<and>
   (newfd \<noteq> - 1 \<and> sscanf3 request = (Some m, u, p) \<and> m \<noteq> ''GET'' \<and>
    length m < 16 \<and> fits 1024 u \<and> fits 16 p \<longrightarrow>
      serve_one e (newfd, Received request) w = Return (log (Close newfd) w))"
proof (intro conjI impI)
  show "\<forall>(fd, r) \<in> set (sends (events_of (main e listenfd conns))).
      header r = ''HTTP/1.1 200 OK'' \<or> header r = ''HTTP/1.1 404 NOT FOUND''"
    using main_status [of e listenfd conns] sends_responses [of "events_of (main e listenfd conns)"]
    unfolding status_ok_def by blast
next
  assume "newfd \<noteq> - 1"
  then show "serve_one e (newfd, Recv_failed) w
               = Return (log (Close newfd) (log (Stderr ''recv'') w))"
    by (simp add: serve_one_def handle_http_request_def)
next
  assume "newfd \<noteq> - 1 \<and> sscanf3 request = (Some m, u, p) \<and> m \<noteq> ''GET'' \<and>
    length m < 16 \<and> fits 1024 u \<and> fits 16 p"
  then show "serve_one e (newfd, Received request) w = Return (log (Close newfd) w)"
    by (simp add: serve_one_def handle_http_request_def fits_def)
qed

theorem responses_are_200_or_404_witness:
  "(4, \<lparr>header = ''HTTP/1.1 404 NOT FOUND'', date = ''Thu Jan  1 00:16:40 1970'' @ nl,
         resp_type = ''text/html'', resp_length = 9, body = ''not found''\<rparr>)
     \<in> set (sends (events_of (main example_env 3 [(4, Received ''GET /nope HTTP/1.1'')]))) \<and>
   (header \<lparr>header = ''HTTP/1.1 404 NOT FOUND'', date = ''Thu Jan  1 00:16:40 1970'' @ nl,
         resp_type = ''text/html'', resp_length = 9, body = ''not found''\<rparr> = ''HTTP/1.1 200 OK'' \<or>
    header \<lparr>header = ''HTTP/1.1 404 NOT FOUND'', date = ''Thu Jan  1 00:16:40 1970'' @ nl,
         resp_type = ''text/html'', resp_length = 9, body = ''not found''\<rparr>
      = ''HTTP/1.1 404 NOT FOUND'') \<and>
   (5::int) \<noteq> - 1 \<and>
   serve_one example_env (5, Recv_failed) example_world
     = Return (log (Close 5) (log (Stderr ''recv'') example_world)) \<and>
   sscanf3 ''POST /save HTTP/1.1'' = (Some ''POST'', Some ''/save'', Some ''HTTP/1.1'') \<and>
   ''POST'' \<noteq> ''GET'' \<and> length ''POST'' < 16 \<and> fits 1024 (Some ''/save'') \<and>
   fits 16 (Some ''HTTP/1.1'') \<and>
   serve_one example_env (5, Received ''POST /save HTTP/1.1'') example_world
     = Return (log (Close 5) example_world)"
proof -
  let ?r = "\<lparr>header = ''HTTP/1.1 404 NOT FOUND'', date = ''Thu Jan  1 00:16:40 1970'' @ nl,
         resp_type = ''text/html'', resp_length = 9, body = ''not found''\<rparr>"
  note t = responses_are_200_or_404 [of example_env 3 "[(4, Received ''GET /nope HTTP/1.1'')]"
      5 example_world "''POST /save HTTP/1.1''" "''POST''" "Some ''/save''" "Some ''HTTP/1.1''"]
  have mem: "(4, ?r) \<in> set (sends (events_of (main example_env 3 [(4, Received ''GET /nope HTTP/1.1'')])))"
    using example_run_404 by auto
  have hyp: "(5::int) \<noteq> - 1 \<and>
      sscanf3 ''POST /save HTTP/1.1'' = (Some ''POST'', Some ''/save'', Some ''HTTP/1.1'') \<and>
      ''POST'' \<noteq> ''GET'' \<and> length ''POST'' < 16 \<and> fits 1024 (Some ''/save'') \<and>
      fits 16 (Some ''HTTP/1.1'')"
    using example_request_post by (simp add: fits_def)
  from t mem have "header ?r = ''HTTP/1.1 200 OK'' \<or> header ?r = ''HTTP/1.1 404 NOT FOUND''"
    by blast
  moreover from t hyp have "serve_one example_env (5, Recv_failed) example_world
     = Return (log (Close 5) (log (Stderr ''recv'') example_world))"
    by blast
  moreover from t hyp have "serve_one example_env (5, Received ''POST /save HTTP/1.1'') example_world
     = Return (log (Close 5) example_world)"
    by blast
  ultimately show ?thesis
    using mem hyp by blast
qed

subsection \<open>The cache agrees with the files\<close>

lemma set_update_subset: "set (AList.update k v al) \<subseteq> insert (k, v) (set al)"
  by (induction al) auto

lemma set_delete_subset: "set (AList.delete k al) \<subseteq> set al"
  by (auto simp: AList.delete_eq)

lemma set_index_evict: "set (index (evict c)) \<subseteq> set (index c)"
  using set_delete_subset [of _ "index c"]
  by (cases "recency c") (simp_all add: evict_def)

lemma set_index_cache_put:
  "set (index (cache_put c key ctype bytes len)) \<subseteq>
     insert (key, \<lparr>path = key, content_type = ctype, content_length = len, content = bytes\<rparr>)
       (set (index c))"
  using set_update_subset [of key _ "index c"] set_index_evict [of c]
  by (auto simp: cache_put_def Let_def split: option.splits)

lemma coherent_cache_put:
  assumes "coherent e c" and "files e key = Some bytes"
  shows "coherent e (cache_put c key (mime_type_get e key) bytes (int (length bytes)))"
  using assms set_index_cache_put [of c key "mime_type_get e key" bytes "int (length bytes)"]
  unfolding coherent_def by fastforce

lemma coherent_recency: "coherent e (c\<lparr>recency := ks\<rparr>) = coherent e c"
  by (simp add: coherent_def)

lemma coherent_hit:
  assumes "coherent e c" and "map_of (index c) key = Some ce"
  shows "files e key = Some (content ce)" and "content_type ce = mime_type_get e key"
    and "content_length ce = int (length (content ce))"
  using assms map_of_SomeD [OF assms(2)] unfolding coherent_def by fastforce+

lemma coherent_create: "cache_create n h = Some c \<Longrightarrow> coherent e c"
  by (auto simp: cache_create_def coherent_def split: if_splits)


subsection \<open>Static files\<close>

lemma respond_file:
  assumes "ticks w1 = ticks w" and "responses (trace w1) = responses (trace w)"
    and "sends (trace w1) = sends (trace w)" and "coherent e (cache w1)"
  shows "responses (events_of (returning (send_response e fd status (mime_type_get e filepath)
             bytes (int (length bytes)) w1))) =
           responses (trace w) @ [(fd, file_response e w status filepath bytes)] \<and>
         (in_bounds (file_response e w status filepath bytes) \<longrightarrow>
            (\<exists>w'. returning (send_response e fd status (mime_type_get e filepath)
                     bytes (int (length bytes)) w1) = Return w' \<and>
                  sends (trace w') = sends (trace w) @ [(fd, file_response e w status filepath bytes)] \<and>
                  Send fd (file_response e w status filepath bytes)
                    (send_rv e fd (response_head (file_response e w status filepath bytes) @ bytes))
                    \<in> set (trace w') \<and>
                  coherent e (cache w')))"
  using assms
  by (simp add: events_send_response returning_send_response file_response_def events_append
        wire_def)

lemma document_for_direct:
  "files e (''./serverroot'' @ uri) = Some bytes \<Longrightarrow>
   document_for e uri = Some (''HTTP/1.1 200 OK'', ''./serverroot'' @ uri, bytes)"
  by (simp add: document_for_def resolved_file_def)

text \<open>
  The fallback path of \<^verbatim>\<open>get_file\<close> for a request path that starts with a slash has two
  slashes in a row; read as a file system reads it, it is \<^verbatim>\<open>index.html\<close> under
  \<^verbatim>\<open>./serverroot/<path>\<close>.
\<close>

lemma squeeze_double:
  "squeeze (xs @ CHR ''/'' # CHR ''/'' # ys) = squeeze (xs @ CHR ''/'' # ys)"
  by (induction xs rule: squeeze.induct) simp_all

lemma fallback_path_same_file:
  "squeeze (''./serverroot/'' @ (CHR ''/'' # rest) @ ''/index.html'') =
   squeeze (''./serverroot/'' @ rest @ ''/index.html'')"
  using squeeze_double [of "''./serverroot''" "rest @ ''/index.html''"] by simp

text \<open>In a run over unchanged files the cache agrees with them at every request.\<close>

lemma returning_cache:
  "returning (send_response e fd hdr ctype bytes len w1) = Return w' \<Longrightarrow> cache w' = cache w1"
  by (auto simp: returning_send_response split: if_splits)

lemma resp_404_cache: "resp_404 e fd w = Return w' \<Longrightarrow> cache w' = cache w"
  by (cases "files e ''./serverfiles/404.html''")
     (auto simp: resp_404_missing resp_404_found dest: returning_cache)

lemma get_file_coherent:
  assumes "coherent e (cache w)" and "get_file e fd uri w = Return w'"
  shows "coherent e (cache w')"
proof (cases "map_of (index (cache w)) (''./serverroot'' @ uri)")
  case (Some ce)
  then show ?thesis
    using assms returning_cache by (fastforce simp: get_file_hit coherent_recency)
next
  case None
  note miss = None
  show ?thesis
  proof (cases "files e (''./serverroot'' @ uri)")
    case (Some b)
    from assms(2) have "cache w' = cache_put (cache w) (''./serverroot'' @ uri)
        (mime_type_get e (''./serverroot'' @ uri)) b (int (length b))"
      unfolding get_file_direct [OF miss Some] by (auto dest: returning_cache)
    then show ?thesis
      using coherent_cache_put [OF assms(1) Some] by simp
  next
    case None
    note nodirect = None
    show ?thesis
    proof (cases "files e (''./serverroot/'' @ uri @ ''/index.html'')")
      case (Some b)
      from assms(2) have "cache w' = cache_put (cache w) (''./serverroot/'' @ uri @ ''/index.html'')
          (mime_type_get e (''./serverroot/'' @ uri @ ''/index.html'')) b (int (length b))"
        unfolding get_file_fallback [OF miss nodirect Some] by (auto dest: returning_cache)
      then show ?thesis
        using coherent_cache_put [OF assms(1) Some] by simp
    next
      case None
      from assms(2) have "cache w' = cache w"
        unfolding get_file_not_found [OF miss nodirect None] by (auto dest: resp_404_cache)
      then show ?thesis
        using assms(1) by simp
    qed
  qed
qed

lemma handle_http_request_coherent:
  assumes "coherent e (cache w)" and "handle_http_request e fd rcv w = Return w'"
  shows "coherent e (cache w')"
proof (cases rcv)
  case Recv_failed
  then show ?thesis
    using assms by (auto simp: handle_http_request_def log_def)
next
  case (Received request)
  obtain m u p where sc: "sscanf3 request = (m, u, p)"
    by (cases "sscanf3 request") auto
  have d20: "get_d20 e fd w = Return w' \<Longrightarrow> cache w' = cache w"
    by (auto simp: get_d20_eq dest: returning_cache)
  show ?thesis
    using assms d20 get_file_coherent [OF assms(1), of fd _ w']
    by (auto simp: handle_http_request_def Received sc split: option.splits if_splits)
qed

lemma serve_one_coherent:
  assumes "coherent e (cache w)" and "serve_one e conn w = Return w'"
  shows "coherent e (cache w')"
  using assms handle_http_request_coherent [OF assms(1)]
  by (auto simp: serve_one_def log_def split: prod.splits if_splits outcome.splits)

lemma serve_coherent:
  "coherent e (cache w) \<Longrightarrow> serve e conns w = Return w' \<Longrightarrow> coherent e (cache w')"
proof (induction conns arbitrary: w)
  case Nil
  then show ?case by simp
next
  case (Cons conn conns)
  then show ?case
    by (cases "serve_one e conn w") (auto dest: serve_one_coherent)
qed

lemma main_coherent: "main e listenfd conns = Return w \<Longrightarrow> coherent e (cache w)"
proof -
  assume run: "main e listenfd conns = Return w"
  have "coherent e (cache \<lparr>cache = \<lparr>capacity = 10, index = [], recency = []\<rparr>,
          seed = 1, drawn = 0, ticks = 0, trace = []\<rparr>)"
    by (simp add: coherent_def)
  from serve_coherent [OF this] run show ?thesis
    by (auto simp: main_def cache_create_def Let_def split: if_splits)
qed

lemma example_request_docs:
  "sscanf3 ''GET /docs HTTP/1.1'' = (Some ''GET'', Some ''/docs'', Some ''HTTP/1.1'')"
  by (simp add: sscanf3_def scan_s_def isspace_def)

lemma example_document_docs:
  "document_for example_env ''/docs'' =
     Some (''HTTP/1.1 200 OK'', ''./serverroot//docs/index.html'', ''docs'')"
  by (simp add: document_for_def resolved_file_def example_env_def)

lemma example_docs_in_bounds:
  "in_bounds (file_response example_env example_world ''HTTP/1.1 200 OK''
     ''./serverroot//docs/index.html'' ''docs'')"
  by (simp add: file_response_def in_bounds_def length_response_head max_response_size_def
        example_env_def nl_def length_sprintf_d_small [of 4, simplified])

subsection \<open>The response to a static request\<close>

text \<open>
  In a state whose cache agrees with the files, the one response the handler builds for a
  \<^verbatim>\<open>GET\<close> request other than \<^verbatim>\<open>/d20\<close> is the document of \<open>document_for\<close>, whether it then
  fits the buffer of \<^verbatim>\<open>send_response\<close> or not; when it fits it is sent, and the cache
  agrees with the files afterwards.
\<close>

lemma static_file_response:
  assumes "sscanf3 request = (Some ''GET'', Some uri, p)"
    and "length uri < 1024" and "fits 16 p" and "uri \<noteq> ''/d20''"
    and "coherent e (cache w)"
    and "document_for e uri = Some (status, filepath, bytes)"
  shows "responses (events_of (handle_http_request e fd (Received request) w)) =
           responses (trace w) @ [(fd, file_response e w status filepath bytes)] \<and>
         (in_bounds (file_response e w status filepath bytes) \<longrightarrow>
            (\<exists>w'. handle_http_request e fd (Received request) w = Return w' \<and>
                  sends (trace w') = sends (trace w) @ [(fd, file_response e w status filepath bytes)] \<and>
                  Send fd (file_response e w status filepath bytes)
                    (send_rv e fd (response_head (file_response e w status filepath bytes) @ bytes))
                    \<in> set (trace w') \<and>
                  coherent e (cache w')))"
proof -
  let ?K = "''./serverroot'' @ uri"
  let ?K' = "''./serverroot/'' @ uri @ ''/index.html''"
  have h: "handle_http_request e fd (Received request) w = get_file e fd uri w"
    using handle_GET [OF assms(1,2,3), of e fd w] assms(4) by simp
  show ?thesis
  proof (cases "map_of (index (cache w)) ?K")
    case (Some ce)
    note hit = coherent_hit [OF assms(5) Some]
    have doc: "status = ''HTTP/1.1 200 OK''" "filepath = ?K" "bytes = content ce"
      using assms(6) document_for_direct [OF hit(1)] by simp_all
    have "coherent e ((cache w)\<lparr>recency := ?K # remove1 ?K (recency (cache w))\<rparr>)"
      using assms(5) by (simp add: coherent_recency)
    then show ?thesis
      unfolding h get_file_hit [OF Some] hit(2,3) doc
      by (intro respond_file) (simp_all add: events_append)
  next
    case None
    note miss = None
    show ?thesis
    proof (cases "files e ?K")
      case (Some b)
      have doc: "status = ''HTTP/1.1 200 OK''" "filepath = ?K" "bytes = b"
        using assms(6) document_for_direct [OF Some] by simp_all
      have "coherent e (cache_put (cache w) ?K (mime_type_get e ?K) b (int (length b)))"
        using assms(5) Some by (rule coherent_cache_put)
      then show ?thesis
        unfolding h get_file_direct [OF miss Some] doc
        by (intro respond_file) (simp_all add: events_append)
    next
      case None
      note nodirect = None
      show ?thesis
      proof (cases "files e ?K'")
        case (Some b)
        have doc: "status = ''HTTP/1.1 200 OK''" "filepath = ?K'" "bytes = b"
          using assms(6) nodirect Some by (simp_all add: document_for_def resolved_file_def)
        have "coherent e (cache_put (cache w) ?K' (mime_type_get e ?K') b (int (length b)))"
          using assms(5) Some by (rule coherent_cache_put)
        then show ?thesis
          unfolding h get_file_fallback [OF miss nodirect Some] doc
          by (intro respond_file) (simp_all add: events_append)
      next
        case None
        from assms(6) nodirect None
        have f: "files e ''./serverfiles/404.html'' = Some bytes"
          and doc: "status = ''HTTP/1.1 404 NOT FOUND''" "filepath = ''./serverfiles/404.html''"
          by (auto simp: document_for_def resolved_file_def split: option.splits)
        show ?thesis
          unfolding h get_file_not_found [OF miss nodirect None] resp_404_found [OF f] doc
          using assms(5) by (intro respond_file) (simp_all add: events_append)
      qed
    qed
  qed
qed


subsection \<open>The claim on static files\<close>

lemma length_large_file: "length large_file = 655360"
  by (simp only: large_file_def length_replicate)

lemma large_file_out_of_bounds:
  "\<not> in_bounds (file_response large_env example_world ''HTTP/1.1 200 OK''
        ''./serverroot/big.bin'' large_file)"
  by (simp add: in_bounds_def file_response_def length_response_head max_response_size_def
        length_large_file)

lemma example_request_big:
  "sscanf3 ''GET /big.bin HTTP/1.1'' = (Some ''GET'', Some ''/big.bin'', Some ''HTTP/1.1'')"
  by (simp add: sscanf3_def scan_s_def isspace_def)

text \<open>
  C5, as stated, fails on a file as large as the buffer of \<^verbatim>\<open>send_response\<close>. The file
  \<^verbatim>\<open>./serverroot/big.bin\<close> has 655360 bytes and loads; the cache is empty. The request
  \<^verbatim>\<open>GET /big.bin\<close> builds the response for that file, but \<^verbatim>\<open>memcpy\<close> would write it past
  the end of \<^verbatim>\<open>response\<close>: the run leaves the defined behaviour, and nothing is sent.
\<close>

theorem static_file_served_counterexample:
  "sscanf3 ''GET /big.bin HTTP/1.1'' = (Some ''GET'', Some ''/big.bin'', Some ''HTTP/1.1'') \<and>
   files large_env ''./serverroot/big.bin'' = Some large_file \<and>
   length large_file = 655360 \<and>
   coherent large_env (cache example_world) \<and>
   (\<exists>evs. handle_http_request large_env 4 (Received ''GET /big.bin HTTP/1.1'') example_world
            = Undefined evs \<and>
          sends evs = [] \<and>
          responses evs =
            [(4, file_response large_env example_world ''HTTP/1.1 200 OK''
                   ''./serverroot/big.bin'' large_file)])"
proof -
  have f: "files large_env (''./serverroot'' @ ''/big.bin'') = Some large_file"
    by (simp add: large_env_def)
  have m: "map_of (index (cache example_world)) (''./serverroot'' @ ''/big.bin'') = None"
    by (simp add: example_world_def)
  have c: "coherent large_env (cache example_world)"
    by (simp add: coherent_def example_world_def)
  have h: "handle_http_request large_env 4 (Received ''GET /big.bin HTTP/1.1'') example_world
             = get_file large_env 4 ''/big.bin'' example_world"
    using handle_GET [OF example_request_big, of large_env 4 example_world]
    by (simp add: fits_def)
  have "\<exists>evs. get_file large_env 4 ''/big.bin'' example_world = Undefined evs \<and>
          sends evs = [] \<and>
          responses evs =
            [(4, file_response large_env example_world ''HTTP/1.1 200 OK''
                   ''./serverroot/big.bin'' large_file)]"
    using large_file_out_of_bounds
    unfolding get_file_direct [OF m f]
    by (simp add: returning_send_response file_response_def events_append example_world_def)
  then show ?thesis
    using example_request_big f c length_large_file by (simp add: h)
qed

text \<open>
  C5, amended: for every \<^verbatim>\<open>GET\<close> request whose URI is not \<^verbatim>\<open>/d20\<close> and whose response
  (header block and body) fits the 655360-byte buffer of \<^verbatim>\<open>send_response\<close>, in a state
  whose cache agrees with the files (by \<open>main_coherent\<close>, every state of a run over
  unchanged files), the server serves the file \<^verbatim>\<open>./serverroot<uri>\<close>; when that cannot be
  loaded, \<^verbatim>\<open>./serverroot/<uri>/index.html\<close> (by \<open>fallback_path_same_file\<close> the file
  \<^verbatim>\<open>index.html\<close> under the requested path); when that cannot be loaded either, it responds
  with the status line \<^verbatim>\<open>404 NOT FOUND\<close> and the document loaded from
  \<^verbatim>\<open>./serverfiles/404.html\<close>. The request returns with exactly this one response sent on
  its socket, the bytes given to \<^verbatim>\<open>send\<close> being the header block followed by all bytes of
  the document, and the cache agrees with the files afterwards.
\<close>

theorem static_file_served:
  assumes "sscanf3 request = (Some ''GET'', Some uri, p)"
    and "length uri < 1024" and "fits 16 p" and "uri \<noteq> ''/d20''"
    and "coherent e (cache w)"
    and "document_for e uri = Some (status, filepath, bytes)"
    and "in_bounds (file_response e w status filepath bytes)"
  shows "\<exists>w'. handle_http_request e fd (Received request) w = Return w' \<and>
           sends (trace w') = sends (trace w) @ [(fd, file_response e w status filepath bytes)] \<and>
           responses (trace w') =
             responses (trace w) @ [(fd, file_response e w status filepath bytes)] \<and>
           Send fd (file_response e w status filepath bytes)
             (send_rv e fd (response_head (file_response e w status filepath bytes) @ bytes))
             \<in> set (trace w') \<and>
           coherent e (cache w')"
proof -
  from static_file_response [OF assms(1-6), of fd] assms(7)
  obtain w' where run: "handle_http_request e fd (Received request) w = Return w'"
    and sent: "sends (trace w') = sends (trace w) @ [(fd, file_response e w status filepath bytes)]"
    and bytes_sent: "Send fd (file_response e w status filepath bytes)
             (send_rv e fd (response_head (file_response e w status filepath bytes) @ bytes))
             \<in> set (trace w')"
    and co: "coherent e (cache w')"
    and built: "responses (events_of (handle_http_request e fd (Received request) w)) =
           responses (trace w) @ [(fd, file_response e w status filepath bytes)]"
    by blast
  from built have "responses (trace w') =
      responses (trace w) @ [(fd, file_response e w status filepath bytes)]"
    by (simp add: run)
  with run sent bytes_sent co show ?thesis
    by blast
qed

theorem static_file_served_witness:
  "sscanf3 ''GET /docs HTTP/1.1'' = (Some ''GET'', Some ''/docs'', Some ''HTTP/1.1'') \<and>
   length ''/docs'' < 1024 \<and> fits 16 (Some ''HTTP/1.1'') \<and> ''/docs'' \<noteq> ''/d20'' \<and>
   coherent example_env (cache example_world) \<and>
   document_for example_env ''/docs'' =
     Some (''HTTP/1.1 200 OK'', ''./serverroot//docs/index.html'', ''docs'') \<and>
   in_bounds (file_response example_env example_world ''HTTP/1.1 200 OK''
     ''./serverroot//docs/index.html'' ''docs'') \<and>
   (\<exists>w'. handle_http_request example_env 4 (Received ''GET /docs HTTP/1.1'') example_world
            = Return w' \<and>
         sends (trace w') = sends (trace example_world) @
           [(4, file_response example_env example_world ''HTTP/1.1 200 OK''
                  ''./serverroot//docs/index.html'' ''docs'')] \<and>
         responses (trace w') = responses (trace example_world) @
           [(4, file_response example_env example_world ''HTTP/1.1 200 OK''
                  ''./serverroot//docs/index.html'' ''docs'')] \<and>
         Send 4 (file_response example_env example_world ''HTTP/1.1 200 OK''
                  ''./serverroot//docs/index.html'' ''docs'')
           (send_rv example_env 4
              (response_head (file_response example_env example_world ''HTTP/1.1 200 OK''
                  ''./serverroot//docs/index.html'' ''docs'') @ ''docs''))
           \<in> set (trace w') \<and>
         coherent example_env (cache w'))"
proof -
  have a: "length ''/docs'' < 1024" "fits 16 (Some ''HTTP/1.1'')" "''/docs'' \<noteq> ''/d20''"
    by (simp_all add: fits_def)
  have c: "coherent example_env (cache example_world)"
    by (simp add: coherent_def example_world_def)
  from static_file_served [OF example_request_docs a c example_document_docs
      example_docs_in_bounds, of 4]
  show ?thesis
    using example_request_docs a c example_document_docs example_docs_in_bounds by blast
qed

subsection \<open>The claim on caching a loaded file\<close>

lemma map_of_cache_put_same:
  "map_of (index (cache_put c key ctype bytes len)) key =
     Some \<lparr>path = key, content_type = ctype, content_length = len, content = bytes\<rparr>"
  by (simp add: cache_put_def Let_def update_conv' split: option.splits)

lemma map_of_evict_None: "map_of (index c) k = None \<Longrightarrow> map_of (index (evict c)) k = None"
  by (cases "recency c") (simp_all add: evict_def delete_conv')

lemma map_of_cache_put_other:
  assumes "map_of (index c) k = None" and "k \<noteq> key"
  shows "map_of (index (cache_put c key ctype bytes len)) k = None"
  using assms map_of_evict_None [OF assms(1)]
  by (simp add: cache_put_def Let_def update_conv' split: option.splits)

lemma resolved_file_cases:
  assumes "resolved_file e uri = Some (filepath, bytes)"
  obtains (direct) "files e (''./serverroot'' @ uri) = Some bytes"
      and "filepath = ''./serverroot'' @ uri"
  | (fallback) "files e (''./serverroot'' @ uri) = None"
      and "files e (''./serverroot/'' @ uri @ ''/index.html'') = Some bytes"
      and "filepath = ''./serverroot/'' @ uri @ ''/index.html''"
  using assms by (auto simp: resolved_file_def split: option.splits)

lemma put_then_respond:
  fixes e :: env and w :: world
  defines "now \<equiv> asctime_local e (clock e (ticks w))"
  assumes w1: "ticks w1 = ticks w"
    "trace w1 = trace w @ pre @ [Cache_put filepath ctype bytes (int (length bytes))]"
    "map_of (index (cache w1)) filepath =
       Some \<lparr>path = filepath, content_type = ctype, content_length = int (length bytes),
             content = bytes\<rparr>"
  shows "\<exists>step post r.
           events_of (returning (send_response e fd ''HTTP/1.1 200 OK'' ctype bytes
               (int (length bytes)) w1)) =
             trace w @ pre @ [Cache_put filepath ctype bytes (int (length bytes)), step] @ post \<and>
           responses [step] = [(fd, r)] \<and> responses post = [] \<and>
           r = \<lparr>header = ''HTTP/1.1 200 OK'', date = now, resp_type = ctype,
                 resp_length = int (length bytes), body = bytes\<rparr> \<and>
           (in_bounds r \<longrightarrow>
              step = Send fd r (send_rv e fd (wire r)) \<and>
              (\<exists>w'. returning (send_response e fd ''HTTP/1.1 200 OK'' ctype bytes
                        (int (length bytes)) w1) = Return w' \<and>
                    map_of (index (cache w')) filepath =
                      Some \<lparr>path = filepath, content_type = ctype,
                            content_length = int (length bytes), content = bytes\<rparr>))"
proof -
  let ?r = "\<lparr>header = ''HTTP/1.1 200 OK'', date = now, resp_type = ctype,
                 resp_length = int (length bytes), body = bytes\<rparr>"
  show ?thesis
  proof (cases "in_bounds ?r")
    case True
    let ?post = "if send_rv e fd (wire ?r) < 0 then [Stderr ''send''] else []"
    have "events_of (returning (send_response e fd ''HTTP/1.1 200 OK'' ctype bytes
               (int (length bytes)) w1)) =
             trace w @ pre @ [Cache_put filepath ctype bytes (int (length bytes)),
               Send fd ?r (send_rv e fd (wire ?r))] @ ?post"
      using True by (simp add: returning_send_response w1 now_def)
    moreover have "\<exists>w'. returning (send_response e fd ''HTTP/1.1 200 OK'' ctype bytes
                        (int (length bytes)) w1) = Return w' \<and>
                    map_of (index (cache w')) filepath =
                      Some \<lparr>path = filepath, content_type = ctype,
                            content_length = int (length bytes), content = bytes\<rparr>"
      using True by (simp add: returning_send_response w1 now_def)
    moreover have "responses ?post = []"
      by simp
    ultimately show ?thesis
      by (intro exI [of _ "Send fd ?r (send_rv e fd (wire ?r))"] exI [of _ ?post] exI [of _ ?r])
         simp
  next
    case False
    have "events_of (returning (send_response e fd ''HTTP/1.1 200 OK'' ctype bytes
               (int (length bytes)) w1)) =
             trace w @ pre @ [Cache_put filepath ctype bytes (int (length bytes)),
               Overrun fd ?r] @ []"
      using False by (simp add: returning_send_response w1 now_def)
    then show ?thesis
      using False
      by (intro exI [of _ "Overrun fd ?r"] exI [of _ "[]"] exI [of _ ?r]) simp
  qed
qed

text \<open>
  C6. A static-file request that misses the cache and whose file load succeeds, for the
  file of the path itself or for \<^verbatim>\<open>index.html\<close> under it: the handler calls \<^verbatim>\<open>cache_put\<close>
  with the path of the loaded file as key, and the very next event is its one response,
  built with the status line \<^verbatim>\<open>200 OK\<close>, the loaded bytes as body and their number as
  content length. Before the insertion there is only the lookup that missed (and the file
  loads). When the response fits the buffer of \<^verbatim>\<open>send_response\<close> that event is the
  \<^verbatim>\<open>send\<close>, the request returns, and the cache holds the entry under the key.
\<close>

theorem loaded_file_cached_then_sent:
  assumes "sscanf3 request = (Some ''GET'', Some uri, p)"
    and "length uri < 1024" and "fits 16 p" and "uri \<noteq> ''/d20''"
    and "map_of (index (cache w)) (''./serverroot'' @ uri) = None"
    and "resolved_file e uri = Some (filepath, bytes)"
  shows "\<exists>pre step post r.
           events_of (handle_http_request e fd (Received request) w) =
             trace w @ pre @
               [Cache_put filepath (mime_type_get e filepath) bytes (int (length bytes)), step] @
               post \<and>
           cache_calls pre = [Cache_get (''./serverroot'' @ uri) False] \<and>
           responses pre = [] \<and> responses [step] = [(fd, r)] \<and> responses post = [] \<and>
           header r = ''HTTP/1.1 200 OK'' \<and> resp_type r = mime_type_get e filepath \<and>
           body r = bytes \<and> resp_length r = int (length bytes) \<and>
           (in_bounds r \<longrightarrow>
              step = Send fd r (send_rv e fd (wire r)) \<and>
              (\<exists>w'. handle_http_request e fd (Received request) w = Return w' \<and>
                    map_of (index (cache w')) filepath =
                      Some \<lparr>path = filepath, content_type = mime_type_get e filepath,
                            content_length = int (length bytes), content = bytes\<rparr>))"
proof -
  let ?K = "''./serverroot'' @ uri"
  let ?K' = "''./serverroot/'' @ uri @ ''/index.html''"
  have h: "handle_http_request e fd (Received request) w = get_file e fd uri w"
    using handle_GET [OF assms(1,2,3), of e fd w] assms(4) by simp
  from assms(6) show ?thesis
  proof (cases rule: resolved_file_cases)
    case direct
    let ?pre = "[Cache_get ?K False, File_load ?K True]"
    let ?w1 = "w\<lparr>cache := cache_put (cache w) ?K (mime_type_get e ?K) bytes (int (length bytes)),
                trace := trace w @
                  [Cache_get ?K False, File_load ?K True,
                   Cache_put ?K (mime_type_get e ?K) bytes (int (length bytes))]\<rparr>"
    have "ticks ?w1 = ticks w"
      and "trace ?w1 = trace w @ ?pre @ [Cache_put ?K (mime_type_get e ?K) bytes (int (length bytes))]"
      and "map_of (index (cache ?w1)) ?K =
         Some \<lparr>path = ?K, content_type = mime_type_get e ?K, content_length = int (length bytes),
               content = bytes\<rparr>"
      by (simp_all add: map_of_cache_put_same)
    from put_then_respond [OF this, where e = e and fd = fd]
    obtain step post r where
      "events_of (get_file e fd uri w) =
         trace w @ ?pre @ [Cache_put ?K (mime_type_get e ?K) bytes (int (length bytes)), step] @ post"
      and "responses [step] = [(fd, r)]" "responses post = []"
      and "r = \<lparr>header = ''HTTP/1.1 200 OK'', date = asctime_local e (clock e (ticks w)),
                resp_type = mime_type_get e ?K, resp_length = int (length bytes), body = bytes\<rparr>"
      and "in_bounds r \<longrightarrow>
              step = Send fd r (send_rv e fd (wire r)) \<and>
              (\<exists>w'. get_file e fd uri w = Return w' \<and>
                    map_of (index (cache w')) ?K =
                      Some \<lparr>path = ?K, content_type = mime_type_get e ?K,
                            content_length = int (length bytes), content = bytes\<rparr>)"
      unfolding get_file_direct [OF assms(5) direct(1)] by blast
    then show ?thesis
      unfolding h direct(2)
      by (intro exI [of _ ?pre] exI [of _ step] exI [of _ post] exI [of _ r]) simp
  next
    case fallback
    let ?pre = "[Cache_get ?K False, File_load ?K False, File_load ?K' True]"
    let ?w1 = "w\<lparr>cache := cache_put (cache w) ?K' (mime_type_get e ?K') bytes (int (length bytes)),
                trace := trace w @
                  [Cache_get ?K False, File_load ?K False, File_load ?K' True,
                   Cache_put ?K' (mime_type_get e ?K') bytes (int (length bytes))]\<rparr>"
    have "ticks ?w1 = ticks w"
      and "trace ?w1 = trace w @ ?pre @ [Cache_put ?K' (mime_type_get e ?K') bytes (int (length bytes))]"
      and "map_of (index (cache ?w1)) ?K' =
         Some \<lparr>path = ?K', content_type = mime_type_get e ?K', content_length = int (length bytes),
               content = bytes\<rparr>"
      by (simp_all add: map_of_cache_put_same)
    from put_then_respond [OF this, where e = e and fd = fd]
    obtain step post r where
      "events_of (get_file e fd uri w) =
         trace w @ ?pre @ [Cache_put ?K' (mime_type_get e ?K') bytes (int (length bytes)), step] @ post"
      and "responses [step] = [(fd, r)]" "responses post = []"
      and "r = \<lparr>header = ''HTTP/1.1 200 OK'', date = asctime_local e (clock e (ticks w)),
                resp_type = mime_type_get e ?K', resp_length = int (length bytes), body = bytes\<rparr>"
      and "in_bounds r \<longrightarrow>
              step = Send fd r (send_rv e fd (wire r)) \<and>
              (\<exists>w'. get_file e fd uri w = Return w' \<and>
                    map_of (index (cache w')) ?K' =
                      Some \<lparr>path = ?K', content_type = mime_type_get e ?K',
                            content_length = int (length bytes), content = bytes\<rparr>)"
      unfolding get_file_fallback [OF assms(5) fallback(1,2)] by blast
    then show ?thesis
      unfolding h fallback(3)
      by (intro exI [of _ ?pre] exI [of _ step] exI [of _ post] exI [of _ r]) simp
  qed
qed


lemma example_resolved_docs:
  "resolved_file example_env ''/docs'' = Some (''./serverroot//docs/index.html'', ''docs'')"
  by (simp add: resolved_file_def example_env_def)

theorem loaded_file_cached_then_sent_witness:
  "sscanf3 ''GET /docs HTTP/1.1'' = (Some ''GET'', Some ''/docs'', Some ''HTTP/1.1'') \<and>
   length ''/docs'' < 1024 \<and> fits 16 (Some ''HTTP/1.1'') \<and> ''/docs'' \<noteq> ''/d20'' \<and>
   map_of (index (cache example_world)) (''./serverroot'' @ ''/docs'') = None \<and>
   resolved_file example_env ''/docs'' = Some (''./serverroot//docs/index.html'', ''docs'') \<and>
   (\<exists>pre step post r.
      events_of (handle_http_request example_env 4 (Received ''GET /docs HTTP/1.1'')
          example_world) =
        trace example_world @ pre @
          [Cache_put ''./serverroot//docs/index.html''
             (mime_type_get example_env ''./serverroot//docs/index.html'') ''docs''
             (int (length ''docs'')), step] @ post \<and>
      cache_calls pre = [Cache_get (''./serverroot'' @ ''/docs'') False] \<and>
      responses pre = [] \<and> responses [step] = [(4, r)] \<and> responses post = [] \<and>
      header r = ''HTTP/1.1 200 OK'' \<and>
      resp_type r = mime_type_get example_env ''./serverroot//docs/index.html'' \<and>
      body r = ''docs'' \<and> resp_length r = int (length ''docs'') \<and>
      (in_bounds r \<longrightarrow>
         step = Send 4 r (send_rv example_env 4 (wire r)) \<and>
         (\<exists>w'. handle_http_request example_env 4 (Received ''GET /docs HTTP/1.1'')
                  example_world = Return w' \<and>
               map_of (index (cache w')) ''./serverroot//docs/index.html'' =
                 Some \<lparr>path = ''./serverroot//docs/index.html'',
                       content_type = mime_type_get example_env ''./serverroot//docs/index.html'',
                       content_length = int (length ''docs''), content = ''docs''\<rparr>)))"
proof -
  have a: "length ''/docs'' < 1024" "fits 16 (Some ''HTTP/1.1'')" "''/docs'' \<noteq> ''/d20''"
    by (simp_all add: fits_def)
  have m: "map_of (index (cache example_world)) (''./serverroot'' @ ''/docs'') = None"
    by (simp add: example_world_def)
  from loaded_file_cached_then_sent [OF example_request_docs a m example_resolved_docs, of 4]
  show ?thesis
    using example_request_docs a m example_resolved_docs by blast
qed

subsection \<open>Repeating a request that is answered from \<^verbatim>\<open>index.html\<close>\<close>

lemma fallback_key_differs:
  "''./serverroot'' @ uri \<noteq> ''./serverroot/'' @ uri @ ''/index.html''"
proof
  assume "''./serverroot'' @ uri = ''./serverroot/'' @ uri @ ''/index.html''"
  then have "length (''./serverroot'' @ uri) = length (''./serverroot/'' @ uri @ ''/index.html'')"
    by (rule arg_cong)
  then show False
    by simp
qed

lemma fallback_round:
  assumes "sscanf3 request = (Some ''GET'', Some uri, p)"
    and "length uri < 1024" and "fits 16 p" and "uri \<noteq> ''/d20''"
    and "newfd \<noteq> - 1"
    and "map_of (index (cache w)) (''./serverroot'' @ uri) = None"
    and "files e (''./serverroot'' @ uri) = None"
    and "files e (''./serverroot/'' @ uri @ ''/index.html'') = Some bytes"
  shows "(in_bounds (file_response e w ''HTTP/1.1 200 OK''
            (''./serverroot/'' @ uri @ ''/index.html'') bytes) \<and>
          (\<exists>w1. serve_one e (newfd, Received request) w = Return w1 \<and>
             map_of (index (cache w1)) (''./serverroot'' @ uri) = None \<and>
             map_of (index (cache w1)) (''./serverroot/'' @ uri @ ''/index.html'') =
               Some \<lparr>path = ''./serverroot/'' @ uri @ ''/index.html'',
                     content_type = mime_type_get e (''./serverroot/'' @ uri @ ''/index.html''),
                     content_length = int (length bytes), content = bytes\<rparr> \<and>
             cache_calls (trace w1) = cache_calls (trace w) @
               [Cache_get (''./serverroot'' @ uri) False,
                Cache_put (''./serverroot/'' @ uri @ ''/index.html'')
                  (mime_type_get e (''./serverroot/'' @ uri @ ''/index.html'')) bytes
                  (int (length bytes))] \<and>
             file_loads (trace w1) = file_loads (trace w) @
               [(''./serverroot'' @ uri, False),
                (''./serverroot/'' @ uri @ ''/index.html'', True)])) \<or>
         (\<not> in_bounds (file_response e w ''HTTP/1.1 200 OK''
            (''./serverroot/'' @ uri @ ''/index.html'') bytes) \<and>
          (\<exists>evs. serve_one e (newfd, Received request) w =
             Undefined (evs @ [Overrun newfd (file_response e w ''HTTP/1.1 200 OK''
               (''./serverroot/'' @ uri @ ''/index.html'') bytes)])))"
proof -
  let ?K = "''./serverroot'' @ uri"
  let ?K' = "''./serverroot/'' @ uri @ ''/index.html''"
  have h: "handle_http_request e newfd (Received request) w = get_file e newfd uri w"
    using handle_GET [OF assms(1,2,3), of e newfd w] assms(4) by simp
  have other: "map_of (index (cache_put (cache w) ?K' (mime_type_get e ?K') bytes
                  (int (length bytes)))) ?K = None"
    using assms(6) fallback_key_differs by (rule map_of_cache_put_other)
  show ?thesis
  proof (cases "in_bounds (file_response e w ''HTTP/1.1 200 OK'' ?K' bytes)")
    case True
    then show ?thesis
      using assms(5) other
      by (simp add: serve_one_def h get_file_fallback [OF assms(6,7,8)] returning_send_response
            file_response_def log_def events_append map_of_cache_put_same)
  next
    case False
    then show ?thesis
      using assms(5)
      by (simp add: serve_one_def h get_file_fallback [OF assms(6,7,8)] returning_send_response
            file_response_def)
  qed
qed


text \<open>
  C9. A request path whose own file cannot be loaded but whose \<^verbatim>\<open>index.html\<close> can, looked
  up when the cache has nothing under \<^verbatim>\<open>./serverroot<uri>\<close>: however often the request is
  repeated, every repetition looks up \<^verbatim>\<open>./serverroot<uri>\<close> and misses, tries that file in
  vain, loads \<^verbatim>\<open>./serverroot/<uri>/index.html\<close> again, and puts it in the cache under that
  second path; the first path is never a key of the cache. The run of \<open>n\<close> repetitions
  never ends the process, and it leaves the defined behaviour only at a response that
  does not fit the buffer of \<^verbatim>\<open>send_response\<close>.
\<close>

theorem fallback_never_hits:
  assumes "sscanf3 request = (Some ''GET'', Some uri, p)"
    and "length uri < 1024" and "fits 16 p" and "uri \<noteq> ''/d20''"
    and "newfd \<noteq> - 1"
    and "map_of (index (cache w)) (''./serverroot'' @ uri) = None"
    and "files e (''./serverroot'' @ uri) = None"
    and "files e (''./serverroot/'' @ uri @ ''/index.html'') = Some bytes"
  shows "case serve e (replicate n (newfd, Received request)) w of
           Return w' \<Rightarrow>
             map_of (index (cache w')) (''./serverroot'' @ uri) = None \<and>
             (0 < n \<longrightarrow>
                map_of (index (cache w')) (''./serverroot/'' @ uri @ ''/index.html'') =
                  Some \<lparr>path = ''./serverroot/'' @ uri @ ''/index.html'',
                        content_type = mime_type_get e (''./serverroot/'' @ uri @ ''/index.html''),
                        content_length = int (length bytes), content = bytes\<rparr>) \<and>
             cache_calls (trace w') = cache_calls (trace w) @
               concat (replicate n
                 [Cache_get (''./serverroot'' @ uri) False,
                  Cache_put (''./serverroot/'' @ uri @ ''/index.html'')
                    (mime_type_get e (''./serverroot/'' @ uri @ ''/index.html'')) bytes
                    (int (length bytes))]) \<and>
             file_loads (trace w') = file_loads (trace w) @
               concat (replicate n
                 [(''./serverroot'' @ uri, False),
                  (''./serverroot/'' @ uri @ ''/index.html'', True)])
         | Exit code evs \<Rightarrow> False
         | Undefined evs \<Rightarrow>
             (\<exists>evs' t. evs = evs' @
                 [Overrun newfd \<lparr>header = ''HTTP/1.1 200 OK'', date = asctime_local e t,
                    resp_type = mime_type_get e (''./serverroot/'' @ uri @ ''/index.html''),
                    resp_length = int (length bytes), body = bytes\<rparr>] \<and>
               \<not> in_bounds \<lparr>header = ''HTTP/1.1 200 OK'', date = asctime_local e t,
                    resp_type = mime_type_get e (''./serverroot/'' @ uri @ ''/index.html''),
                    resp_length = int (length bytes), body = bytes\<rparr>)"
  using assms(6)
proof (induction n arbitrary: w)
  case 0
  then show ?case by simp
next
  case (Suc n)
  let ?K = "''./serverroot'' @ uri"
  let ?K' = "''./serverroot/'' @ uri @ ''/index.html''"
  let ?conn = "(newfd, Received request)"
  from fallback_round [OF assms(1,2,3,4,5) Suc.prems assms(7,8)]
  consider
    (sent) w1 where "serve_one e ?conn w = Return w1"
      and "map_of (index (cache w1)) ?K = None"
      and "map_of (index (cache w1)) ?K' =
             Some \<lparr>path = ?K', content_type = mime_type_get e ?K',
                   content_length = int (length bytes), content = bytes\<rparr>"
      and "cache_calls (trace w1) = cache_calls (trace w) @
             [Cache_get ?K False,
              Cache_put ?K' (mime_type_get e ?K') bytes (int (length bytes))]"
      and "file_loads (trace w1) = file_loads (trace w) @ [(?K, False), (?K', True)]"
  | (overrun) evs where
      "\<not> in_bounds (file_response e w ''HTTP/1.1 200 OK'' ?K' bytes)"
      and "serve_one e ?conn w =
             Undefined (evs @ [Overrun newfd (file_response e w ''HTTP/1.1 200 OK'' ?K' bytes)])"
    by blast
  then show ?case
  proof cases
    case sent
    note ih = Suc.IH [OF sent(2)]
    show ?thesis
    proof (cases "serve e (replicate n ?conn) w1")
      case (Return w')
      have present: "map_of (index (cache w')) ?K' =
             Some \<lparr>path = ?K', content_type = mime_type_get e ?K',
                   content_length = int (length bytes), content = bytes\<rparr>"
      proof (cases n)
        case 0
        then show ?thesis
          using Return sent(3) by simp
      next
        case (Suc k)
        then show ?thesis
          using ih Return by simp
      qed
      show ?thesis
        using ih Return present sent(1,4,5) by simp
    next
      case (Exit code evs)
      then show ?thesis
        using ih by simp
    next
      case (Undefined evs)
      then show ?thesis
        using ih sent(1) by simp
    qed
  next
    case overrun
    then show ?thesis
      by (auto simp: file_response_def)
  qed
qed


theorem fallback_never_hits_witness:
  "sscanf3 ''GET /docs HTTP/1.1'' = (Some ''GET'', Some ''/docs'', Some ''HTTP/1.1'') \<and>
   length ''/docs'' < 1024 \<and> fits 16 (Some ''HTTP/1.1'') \<and> ''/docs'' \<noteq> ''/d20'' \<and>
   (4::int) \<noteq> - 1 \<and>
   map_of (index (cache example_world)) ''./serverroot/docs'' = None \<and>
   files example_env ''./serverroot/docs'' = None \<and>
   files example_env ''./serverroot//docs/index.html'' = Some ''docs'' \<and>
   (\<exists>w'. serve example_env (replicate 2 (4, Received ''GET /docs HTTP/1.1'')) example_world
            = Return w' \<and>
      map_of (index (cache w')) ''./serverroot/docs'' = None \<and>
      map_of (index (cache w')) ''./serverroot//docs/index.html'' =
        Some \<lparr>path = ''./serverroot//docs/index.html'', content_type = ''text/html'',
              content_length = 4, content = ''docs''\<rparr> \<and>
      cache_calls (trace w') =
        [Cache_get ''./serverroot/docs'' False,
         Cache_put ''./serverroot//docs/index.html'' ''text/html'' ''docs'' 4,
         Cache_get ''./serverroot/docs'' False,
         Cache_put ''./serverroot//docs/index.html'' ''text/html'' ''docs'' 4] \<and>
      file_loads (trace w') =
        [(''./serverroot/docs'', False), (''./serverroot//docs/index.html'', True),
         (''./serverroot/docs'', False), (''./serverroot//docs/index.html'', True)])"
proof -
  let ?run = "serve example_env (replicate 2 (4, Received ''GET /docs HTTP/1.1'')) example_world"
  have a: "length ''/docs'' < 1024" "fits 16 (Some ''HTTP/1.1'')" "''/docs'' \<noteq> ''/d20''"
    "(4::int) \<noteq> - 1"
    by (simp_all add: fits_def)
  have m: "map_of (index (cache example_world)) (''./serverroot'' @ ''/docs'') = None"
    by (simp add: example_world_def)
  have f: "files example_env (''./serverroot'' @ ''/docs'') = None"
    "files example_env (''./serverroot/'' @ ''/docs'' @ ''/index.html'') = Some ''docs''"
    by (simp_all add: example_env_def)
  have fit: "in_bounds \<lparr>header = ''HTTP/1.1 200 OK'', date = asctime_local example_env t,
       resp_type = mime_type_get example_env (''./serverroot/'' @ ''/docs'' @ ''/index.html''),
       resp_length = int (length ''docs''), body = ''docs''\<rparr>" for t
    by (simp add: in_bounds_def length_response_head max_response_size_def
          example_env_def nl_def length_sprintf_d_small [of 4, simplified])
  note t = fallback_never_hits [OF example_request_docs a m f, of 2]
  have "\<exists>w'. ?run = Return w' \<and>
      map_of (index (cache w')) ''./serverroot/docs'' = None \<and>
      map_of (index (cache w')) ''./serverroot//docs/index.html'' =
        Some \<lparr>path = ''./serverroot//docs/index.html'', content_type = ''text/html'',
              content_length = 4, content = ''docs''\<rparr> \<and>
      cache_calls (trace w') =
        [Cache_get ''./serverroot/docs'' False,
         Cache_put ''./serverroot//docs/index.html'' ''text/html'' ''docs'' 4,
         Cache_get ''./serverroot/docs'' False,
         Cache_put ''./serverroot//docs/index.html'' ''text/html'' ''docs'' 4] \<and>
      file_loads (trace w') =
        [(''./serverroot/docs'', False), (''./serverroot//docs/index.html'', True),
         (''./serverroot/docs'', False), (''./serverroot//docs/index.html'', True)]"
  proof (cases ?run)
    case (Return w')
    have two: "replicate 2 x = [x, x]" for x :: "'a"
      by (simp add: numeral_2_eq_2)
    from t show ?thesis
      unfolding Return
      by (simp add: two example_env_def example_world_def)
  next
    case (Exit code evs)
    with t show ?thesis by simp
  next
    case (Undefined evs)
    with t fit show ?thesis by auto
  qed
  then show ?thesis
    using example_request_docs a m f by simp
qed

end
